theory Spec2Isabelle
  imports Main "HOL-Library.Sublist"
begin

section \<open>Strings\<close>

text \<open>
  The runner works on JavaScript strings. A string is a sequence of UTF-16 code units and is
  modelled as the list of their numbers, so that every string the runner can meet has a
  place; \<open>js\<close> writes out a literal. Selectors, control names and the messages of rejections
  are only ever compared or passed on, and stay Isabelle strings.
\<close>

type_synonym jsstring = "nat list"

definition js :: "string \<Rightarrow> jsstring" where
  "js s = map of_char s"

text \<open>The white space and the line terminators that \<open>trim\<close> strips: tab, line feed,
  vertical tab, form feed, carriage return, space, no-break space, the space separators of
  Unicode, line and paragraph separator, and the byte order mark.\<close>

definition isWhiteSpace :: "nat \<Rightarrow> bool" where
  "isWhiteSpace c =
     (c \<in> {0x09, 0x0A, 0x0B, 0x0C, 0x0D, 0x20, 0xA0, 0x1680, 0x2028, 0x2029, 0x202F, 0x205F,
            0x3000, 0xFEFF}
      \<or> (0x2000 \<le> c \<and> c \<le> 0x200A))"

definition trim :: "jsstring \<Rightarrow> jsstring" where
  "trim s = rev (dropWhile isWhiteSpace (rev (dropWhile isWhiteSpace s)))"

text \<open>\<open>s.includes(p)\<close>: \<open>p\<close> occurs in \<open>s\<close> as a contiguous run.\<close>

fun str_includes :: "'a list \<Rightarrow> 'a list \<Rightarrow> bool" where
  "str_includes [] p = (p = [])"
| "str_includes (c # cs) p = (prefix p (c # cs) \<or> str_includes cs p)"


text \<open>
  \<open>toLowerCase\<close> is the platform's: the case conversion of Unicode, which may change the
  length of a string and lowers a letter in view of its neighbours (a capital sigma that ends
  a word becomes a final sigma). The functions that call it take it as the parameter
  \<open>lower\<close>, and what is proved of them holds whatever it computes.
\<close>

section \<open>Errors and configuration\<close>

text \<open>
  A call on the page, a frame or a locator is awaited and may be rejected; the rejection is
  known by its message. \<open>BrowserError\<close> is such a rejection when it travels up the runner;
  the other constructors are the errors that the runner's own code raises.
\<close>

type_synonym rejection = string

datatype error =
    BrowserError rejection
  | InvalidURL
  | MeetingErrorState
  | LobbyTimeout nat
  | MonitoringFailed

record AppConfig =
  zoomUrl :: jsstring
  botName :: jsstring
  messageText :: jsstring
  monitorMessages :: bool
  headless :: bool
  navigationTimeoutMs :: nat
  nameInputTimeoutMs :: nat
  lobbyTimeoutMs :: nat
  chatTimeoutMs :: nat
  postLeaveDelayMs :: nat
  webClientUrl :: jsstring

section \<open>Candidate resolution\<close>

text \<open>
  A locator is named by the way it was built: by role and accessible-name pattern, or by a
  selector; every candidate is the first match of its descriptor. The surface answers a
  visibility probe with a boolean or a rejection, and a wait for visibility by completing or
  by a rejection (the timeout among them).
\<close>

datatype descriptor = ByRole string string | Css string

text \<open>\<open>locator.isVisible().catch(() => false)\<close>\<close>

definition probeVisible :: "('l \<Rightarrow> rejection + bool) \<Rightarrow> 'l \<Rightarrow> bool" where
  "probeVisible isVisible l = (case isVisible l of Inl e \<Rightarrow> False | Inr v \<Rightarrow> v)"

text \<open>The settled results of the probes issued together, one per candidate, in list order.\<close>

definition visibilityChecks :: "('l \<Rightarrow> rejection + bool) \<Rightarrow> 'l list \<Rightarrow> (nat \<times> 'l \<times> bool) list" where
  "visibilityChecks isVisible candidates =
     map (\<lambda>(index, locator). (index, locator, probeVisible isVisible locator))
       (enumerate 0 candidates)"

fun firstVisible :: "(nat \<times> 'l \<times> bool) list \<Rightarrow> (nat \<times> 'l) option" where
  "firstVisible [] = None"
| "firstVisible ((index, locator, visible) # results) =
     (if visible then Some (index, locator) else firstVisible results)"

text \<open>The sequential phase: wait for each candidate in turn, a rejection moves on.\<close>

fun fallbackWait :: "('l \<Rightarrow> rejection option) \<Rightarrow> (nat \<times> 'l) list \<Rightarrow> (nat \<times> 'l) option" where
  "fallbackWait waitFor [] = None"
| "fallbackWait waitFor ((index, locator) # entries) =
     (case waitFor locator of
        None \<Rightarrow> Some (index, locator)
      | Some e \<Rightarrow> fallbackWait waitFor entries)"

definition resolveCandidates ::
  "('l \<Rightarrow> rejection + bool) \<Rightarrow> ('l \<Rightarrow> rejection option) \<Rightarrow> 'l list \<Rightarrow> (nat \<times> 'l) option" where
  "resolveCandidates isVisible waitFor candidates =
     (case firstVisible (visibilityChecks isVisible candidates) of
        Some r \<Rightarrow> Some r
      | None \<Rightarrow> fallbackWait waitFor (enumerate 0 candidates))"

definition chatInputCandidates :: "descriptor list" where
  "chatInputCandidates =
     [ByRole ''textbox'' ''/Chat Input/i'',
      ByRole ''textbox'' ''/Message/i'',
      ByRole ''textbox'' ''/Type.*message/i'',
      Css ''[contenteditable=\"true\"][role=\"textbox\"]'',
      Css ''[contenteditable=\"true\"][data-placeholder]'',
      Css ''[contenteditable=\"true\"].chat-box__chat-textarea'',
      Css ''.chat-box__chat-textarea'',
      Css ''textarea[placeholder*=\"message\" i]'',
      Css ''textarea[placeholder*=\"type\" i]'',
      Css ''input[placeholder*=\"message\" i]'',
      Css ''div[contenteditable=\"true\"]'']"

text \<open>The function returns the locator; the index goes to the log only.\<close>

definition findChatInputCandidates ::
  "(descriptor \<Rightarrow> rejection + bool) \<Rightarrow> (descriptor \<Rightarrow> rejection option) \<Rightarrow> descriptor option" where
  "findChatInputCandidates isVisible waitFor =
     map_option snd (resolveCandidates isVisible waitFor chatInputCandidates)"

section \<open>Dismissing blocking overlays\<close>

text \<open>
  What the surface does during one call of \<open>dismissBlockingModals\<close>: the two overlay counts,
  the click on each dismiss control, the Escape key, the script that removes the portals, and
  the two timed waits. Every one of them is an awaited call that may be rejected.
\<close>

record modal_env =
  overlayCount :: "rejection + nat"
  dismissClick :: "string \<Rightarrow> rejection option"
  escapePress :: "rejection option"
  waitAfterEscape :: "rejection option"
  remainingCount :: "rejection + nat"
  forceRemove :: "rejection + nat"
  waitAfterRemove :: "rejection option"

text \<open>The attempts made on the page, each with what came of it.\<close>

datatype modal_action =
    ClickDismiss string "rejection option"
  | PressEscape "rejection option"
  | ForceRemovePortals "rejection + nat"

definition dismissSelectors :: "string list" where
  "dismissSelectors =
     [''button:has-text(\"Got it\")'',
      ''button:has-text(\"Got It\")'',
      ''button:has-text(\"OK\")'',
      ''button:has-text(\"Close\")'',
      ''button:has-text(\"Continue\")'',
      ''[aria-label=\"Close\"]'',
      ''[aria-label=\"close\"]'',
      ''.zm-modal__close'',
      ''.ReactModalPortal button[aria-label]'']"

text \<open>The clicks are issued together and all settle; the Escape key follows.\<close>

definition dismissAttempts :: "modal_env \<Rightarrow> modal_action list" where
  "dismissAttempts env =
     map (\<lambda>selector. ClickDismiss selector (dismissClick env selector)) dismissSelectors
     @ [PressEscape (escapePress env)]"

definition dismissBlockingModals :: "modal_env \<Rightarrow> (error + unit) \<times> modal_action list" where
  "dismissBlockingModals env =
     (case overlayCount env of
        Inl r \<Rightarrow> (Inl (BrowserError r), [])
      | Inr initialCount \<Rightarrow>
          if initialCount = 0 then (Inr (), [])
          else
            (case waitAfterEscape env of
               Some r \<Rightarrow> (Inl (BrowserError r), dismissAttempts env)
             | None \<Rightarrow>
                 (case remainingCount env of
                    Inl r \<Rightarrow> (Inl (BrowserError r), dismissAttempts env)
                  | Inr remaining \<Rightarrow>
                      if 0 < remaining
                      then
                        (case waitAfterRemove env of
                           Some r \<Rightarrow>
                             (Inl (BrowserError r),
                              dismissAttempts env @ [ForceRemovePortals (forceRemove env)])
                         | None \<Rightarrow>
                             (Inr (), dismissAttempts env @ [ForceRemovePortals (forceRemove env)]))
                      else (Inr (), dismissAttempts env))))"

section \<open>Submitting the join form\<close>

text \<open>
  What the surface does during one call of \<open>submitJoin\<close>: the overlays, the visibility
  probe and the click of each candidate, the wait of 200 ms after the click on the candidate
  found visible, the wait of 200 ms after the click on each candidate in the fallback, the
  Enter key and the wait of 200 ms after it.
\<close>

record join_env =
  joinModals :: modal_env
  joinVisible :: "descriptor \<Rightarrow> rejection + bool"
  joinClick :: "descriptor \<Rightarrow> rejection option"
  joinSettle :: "rejection option"
  joinFallbackSettle :: "descriptor \<Rightarrow> rejection option"
  joinEnter :: "rejection option"
  joinEnterSettle :: "rejection option"

datatype join_action = ClickJoin nat descriptor | PressEnter

definition joinCandidates :: "descriptor list" where
  "joinCandidates =
     [ByRole ''button'' ''/^Join(?: Meeting)?$/i'',
      Css ''button:has-text(\"Join\")'',
      Css ''[data-qa=\"join-meeting\"]'']"

text \<open>The fallback takes each candidate in turn. The click and the wait after it stand in one
  \<open>try\<close>: when either is rejected the loop moves on to the next candidate, and it returns
  at the first candidate for which both complete.\<close>

fun fallbackClick ::
  "(descriptor \<Rightarrow> rejection option) \<Rightarrow> (descriptor \<Rightarrow> rejection option)
     \<Rightarrow> (nat \<times> descriptor) list \<Rightarrow> bool \<times> join_action list" where
  "fallbackClick click settle [] = (False, [])"
| "fallbackClick click settle ((index, locator) # entries) =
     (case click locator of
        Some r \<Rightarrow>
          (fst (fallbackClick click settle entries),
           ClickJoin index locator # snd (fallbackClick click settle entries))
      | None \<Rightarrow>
          (case settle locator of
             None \<Rightarrow> (True, [ClickJoin index locator])
           | Some r \<Rightarrow>
               (fst (fallbackClick click settle entries),
                ClickJoin index locator # snd (fallbackClick click settle entries))))"

text \<open>The click on the candidate found visible and the wait after it are not guarded: a
  rejection of either leaves the function. So do a rejection of the Enter key and of the wait
  after it.\<close>

definition submitJoinOn :: "descriptor list \<Rightarrow> join_env \<Rightarrow> (error + unit) \<times> join_action list" where
  "submitJoinOn candidates env =
     (case fst (dismissBlockingModals (joinModals env)) of
        Inl e \<Rightarrow> (Inl e, [])
      | Inr u \<Rightarrow>
          (case firstVisible (visibilityChecks (joinVisible env) candidates) of
             Some (index, locator) \<Rightarrow>
               (case joinClick env locator of
                  Some r \<Rightarrow> (Inl (BrowserError r), [ClickJoin index locator])
                | None \<Rightarrow>
                    (case joinSettle env of
                       Some r \<Rightarrow> (Inl (BrowserError r), [ClickJoin index locator])
                     | None \<Rightarrow> (Inr (), [ClickJoin index locator])))
           | None \<Rightarrow>
               (if fst (fallbackClick (joinClick env) (joinFallbackSettle env)
                          (enumerate 0 candidates))
                then (Inr (),
                      snd (fallbackClick (joinClick env) (joinFallbackSettle env)
                             (enumerate 0 candidates)))
                else
                  (case joinEnter env of
                     Some r \<Rightarrow>
                       (Inl (BrowserError r),
                        snd (fallbackClick (joinClick env) (joinFallbackSettle env)
                               (enumerate 0 candidates)) @ [PressEnter])
                   | None \<Rightarrow>
                       (case joinEnterSettle env of
                          Some r \<Rightarrow>
                            (Inl (BrowserError r),
                             snd (fallbackClick (joinClick env) (joinFallbackSettle env)
                                    (enumerate 0 candidates)) @ [PressEnter])
                        | None \<Rightarrow>
                            (Inr (),
                             snd (fallbackClick (joinClick env) (joinFallbackSettle env)
                                    (enumerate 0 candidates)) @ [PressEnter]))))))"

definition submitJoin :: "join_env \<Rightarrow> (error + unit) \<times> join_action list" where
  "submitJoin env = submitJoinOn joinCandidates env"

section \<open>Waiting for admission\<close>

record admission_env =
  admissionSettle :: "rejection option"
  leaveButtonVisible :: "rejection + bool"
  waitingTextVisible :: "rejection + bool"
  joinAudioButtonVisible :: "rejection + bool"
  participantsButtonVisible :: "rejection + bool"
  chatButtonVisible :: "rejection + bool"
  videoButtonVisible :: "rejection + bool"
  leaveButtonWait :: "nat \<Rightarrow> rejection option"
  errorTextVisible :: "nat \<Rightarrow> rejection + bool"

datatype admission_event =
    ProbeIndicators
  | LobbyAttempt nat
  | DomSnapshot nat
  | DebugScreenshot string

text \<open>The probes that were fulfilled, with the name each one carries; a rejected probe is
  dropped.\<close>

definition settled :: "string \<Rightarrow> rejection + bool \<Rightarrow> (string \<times> bool) list" where
  "settled nm r = (case r of Inl e \<Rightarrow> [] | Inr v \<Rightarrow> [(nm, v)])"

definition visibilityState :: "admission_env \<Rightarrow> (string \<times> bool) list" where
  "visibilityState env =
     settled ''leaveButton'' (leaveButtonVisible env)
     @ settled ''waitingText'' (waitingTextVisible env)
     @ settled ''joinAudioButton'' (joinAudioButtonVisible env)
     @ settled ''participantsButton'' (participantsButtonVisible env)
     @ settled ''chatButton'' (chatButtonVisible env)
     @ settled ''videoButton'' (videoButtonVisible env)"

definition inMeetingButtons :: "admission_env \<Rightarrow> (string \<times> bool) list" where
  "inMeetingButtons env =
     filter
       (\<lambda>s. fst s \<in> set [''joinAudioButton'', ''participantsButton'', ''chatButton'', ''videoButton'']
            \<and> snd s)
       (visibilityState env)"

text \<open>\<open>Math.ceil(lobbyTimeoutMs / pollInterval)\<close> with a poll interval of 1000.\<close>

definition maxAttempts :: "AppConfig \<Rightarrow> nat" where
  "maxAttempts cfg = (lobbyTimeoutMs cfg + 999) div 1000"

text \<open>The polling loop, with the number of attempts left and the number of the attempt.\<close>

fun lobbyPoll ::
  "AppConfig \<Rightarrow> admission_env \<Rightarrow> nat \<Rightarrow> nat \<Rightarrow> (error + unit) \<times> admission_event list" where
  "lobbyPoll cfg env 0 attempt =
     (Inl (LobbyTimeout (lobbyTimeoutMs cfg)), [DebugScreenshot ''lobby-timeout''])"
| "lobbyPoll cfg env (Suc left) attempt =
     (case leaveButtonWait env attempt of
        None \<Rightarrow> (Inr (), [LobbyAttempt attempt])
      | Some e \<Rightarrow>
          (if (case errorTextVisible env attempt of Inl e' \<Rightarrow> False | Inr v \<Rightarrow> v)
           then (Inl MeetingErrorState,
                 [LobbyAttempt attempt, DomSnapshot attempt, DebugScreenshot ''meeting-error-state''])
           else (fst (lobbyPoll cfg env left (Suc attempt)),
                 LobbyAttempt attempt # DomSnapshot attempt
                 # snd (lobbyPoll cfg env left (Suc attempt)))))"

definition waitForAdmission ::
  "AppConfig \<Rightarrow> admission_env \<Rightarrow> (error + unit) \<times> admission_event list" where
  "waitForAdmission cfg env =
     (case admissionSettle env of
        Some r \<Rightarrow> (Inl (BrowserError r), [])
      | None \<Rightarrow>
          if 2 \<le> length (inMeetingButtons env) then (Inr (), [ProbeIndicators])
          else (fst (lobbyPoll cfg env (maxAttempts cfg) 1),
                ProbeIndicators # snd (lobbyPoll cfg env (maxAttempts cfg) 1)))"

text \<open>In the words of the specification: how many of the four in-meeting controls the probes
  report visible.\<close>

definition visibleIndicatorCount :: "admission_env \<Rightarrow> nat" where
  "visibleIndicatorCount env =
     length (filter (\<lambda>r. r = Inr True)
       [joinAudioButtonVisible env, participantsButtonVisible env,
        chatButtonVisible env, videoButtonVisible env])"

section \<open>Monitoring the chat\<close>

text \<open>One rendered chat message, as the page script returns it.\<close>

record message =
  msgName :: jsstring
  msgText :: jsstring
  fullText :: jsstring

text \<open>What the surface does during one quick reply: the chat input that resolution finds, if
  any, then the fill and the Enter key.\<close>

record reply_env =
  resolveChatInput :: "rejection + descriptor option"
  replyFill :: "rejection option"
  replyPress :: "rejection option"

text \<open>\<open>sendQuickReply\<close> catches whatever goes wrong and returns; the boolean says whether the
  reply went out.\<close>

definition sendQuickReply :: "reply_env \<Rightarrow> jsstring \<Rightarrow> bool" where
  "sendQuickReply env message =
     (case resolveChatInput env of
        Inl r \<Rightarrow> False
      | Inr None \<Rightarrow> False
      | Inr (Some input) \<Rightarrow>
          (case replyFill env of
             Some r \<Rightarrow> False
           | None \<Rightarrow> (case replyPress env of Some r \<Rightarrow> False | None \<Rightarrow> True)))"

text \<open>
  What the surface does during one pass of the loop: the result of the page script that
  collects the messages, the surface at the reply to the message at each position of the batch,
  the wait of 500 ms that ends the \<open>try\<close>, and the wait of 1000 ms of the error handler.
\<close>

record iteration =
  poll :: "rejection + message list"
  replyEnv :: "nat \<Rightarrow> reply_env"
  waitAfterPoll :: "rejection option"
  waitAfterError :: "rejection option"

text \<open>The variables of the loop, and the replies dispatched so far: the message answered, the
  token, and whether it went out.\<close>

record monitor_state =
  seenMessages :: "jsstring set"
  consecutiveErrors :: nat
  dispatched :: "(message \<times> jsstring \<times> bool) list"

definition maxConsecutiveErrors :: nat where
  "maxConsecutiveErrors = 10"

definition messageKey :: "message \<Rightarrow> jsstring" where
  "messageKey msg = msgName msg @ js '':'' @ msgText msg"

definition isBotOwnMessage :: "AppConfig \<Rightarrow> message \<Rightarrow> bool" where
  "isBotOwnMessage cfg msg =
     (msgName msg = botName cfg \<or> msgText msg = js ''roger'' \<or> msgText msg = js ''dong''
      \<or> msgText msg = js ''I'm in.'')"

definition textLower :: "(jsstring \<Rightarrow> jsstring) \<Rightarrow> message \<Rightarrow> jsstring" where
  "textLower lower msg = trim (lower (msgText msg))"

definition mentionsBot :: "(jsstring \<Rightarrow> jsstring) \<Rightarrow> AppConfig \<Rightarrow> message \<Rightarrow> bool" where
  "mentionsBot lower cfg msg = str_includes (textLower lower msg) (lower (botName cfg))"

definition replyToken :: "(jsstring \<Rightarrow> jsstring) \<Rightarrow> AppConfig \<Rightarrow> message \<Rightarrow> jsstring" where
  "replyToken lower cfg msg = (if mentionsBot lower cfg msg then js ''dong'' else js ''roger'')"

definition markSeen :: "message \<Rightarrow> monitor_state \<Rightarrow> monitor_state" where
  "markSeen msg st = st\<lparr>seenMessages := insert (messageKey msg) (seenMessages st)\<rparr>"

definition dispatchReply ::
  "(jsstring \<Rightarrow> jsstring) \<Rightarrow> AppConfig \<Rightarrow> reply_env \<Rightarrow> message \<Rightarrow> monitor_state
     \<Rightarrow> monitor_state" where
  "dispatchReply lower cfg env msg st =
     st\<lparr>dispatched :=
          dispatched st
          @ [(msg, replyToken lower cfg msg, sendQuickReply env (replyToken lower cfg msg))]\<rparr>"

text \<open>The loop over one batch. The boolean is True when the quit command ended it, which
  leaves the rest of the batch unread.\<close>

fun processMessages ::
  "(jsstring \<Rightarrow> jsstring) \<Rightarrow> AppConfig \<Rightarrow> (nat \<Rightarrow> reply_env) \<Rightarrow> nat \<Rightarrow> monitor_state
     \<Rightarrow> message list \<Rightarrow> bool \<times> monitor_state" where
  "processMessages lower cfg renv i st [] = (False, st)"
| "processMessages lower cfg renv i st (msg # messages) =
     (if messageKey msg \<in> seenMessages st
      then processMessages lower cfg renv (Suc i) st messages
      else if isBotOwnMessage cfg msg
      then processMessages lower cfg renv (Suc i) (markSeen msg st) messages
      else if textLower lower msg = js ''quit'' then (True, markSeen msg st)
      else processMessages lower cfg renv (Suc i)
             (dispatchReply lower cfg (renv i) msg (markSeen msg st)) messages)"

text \<open>How a run of the loop stands: still polling, returned on the quit command, or left by an
  error.\<close>

datatype run = Running monitor_state | Returned monitor_state | Threw error monitor_state

fun run_state :: "run \<Rightarrow> monitor_state" where
  "run_state (Running st) = st"
| "run_state (Returned st) = st"
| "run_state (Threw e st) = st"

text \<open>The error handler of the loop: the counter goes up by one; at the ceiling the loop
  raises its own error, below it the handler waits, and a rejection of that wait leaves the
  loop.\<close>

definition onPollError :: "monitor_state \<Rightarrow> iteration \<Rightarrow> run" where
  "onPollError st it =
     (if maxConsecutiveErrors \<le> consecutiveErrors st + 1
      then Threw MonitoringFailed (st\<lparr>consecutiveErrors := consecutiveErrors st + 1\<rparr>)
      else
        (case waitAfterError it of
           None \<Rightarrow> Running (st\<lparr>consecutiveErrors := consecutiveErrors st + 1\<rparr>)
         | Some r \<Rightarrow>
             Threw (BrowserError r) (st\<lparr>consecutiveErrors := consecutiveErrors st + 1\<rparr>)))"

text \<open>One pass of the loop. The counter is reset once the batch is processed, before the wait
  of 500 ms; that wait stands in the \<open>try\<close>, so its rejection goes to the handler.\<close>

definition monitorIteration ::
  "(jsstring \<Rightarrow> jsstring) \<Rightarrow> AppConfig \<Rightarrow> monitor_state \<Rightarrow> iteration \<Rightarrow> run" where
  "monitorIteration lower cfg st it =
     (case poll it of
        Inl r \<Rightarrow> onPollError st it
      | Inr messages \<Rightarrow>
          (if fst (processMessages lower cfg (replyEnv it) 0 st messages)
           then Returned (snd (processMessages lower cfg (replyEnv it) 0 st messages))
           else
             (case waitAfterPoll it of
                None \<Rightarrow>
                  Running ((snd (processMessages lower cfg (replyEnv it) 0 st messages))
                             \<lparr>consecutiveErrors := 0\<rparr>)
              | Some r \<Rightarrow>
                  onPollError
                    ((snd (processMessages lower cfg (replyEnv it) 0 st messages))
                       \<lparr>consecutiveErrors := 0\<rparr>) it)))"

text \<open>
  The loop has no bound of its own. It is run against the list of what the surface does pass
  after pass; when the list ends with the loop still polling, the run is \<open>Running\<close>.
\<close>

fun monitorLoop ::
  "(jsstring \<Rightarrow> jsstring) \<Rightarrow> AppConfig \<Rightarrow> monitor_state \<Rightarrow> iteration list \<Rightarrow> run" where
  "monitorLoop lower cfg st [] = Running st"
| "monitorLoop lower cfg st (it # its) =
     (case monitorIteration lower cfg st it of
        Running st' \<Rightarrow> monitorLoop lower cfg st' its
      | Returned st' \<Rightarrow> Returned st'
      | Threw e st' \<Rightarrow> Threw e st')"

definition initialMonitorState :: monitor_state where
  "initialMonitorState = \<lparr>seenMessages = {}, consecutiveErrors = 0, dispatched = []\<rparr>"

definition monitorChatMessages ::
  "(jsstring \<Rightarrow> jsstring) \<Rightarrow> AppConfig \<Rightarrow> iteration list \<Rightarrow> run" where
  "monitorChatMessages lower cfg its = monitorLoop lower cfg initialMonitorState its"

text \<open>How many replies were dispatched for a sender and text.\<close>

definition dispatchCount :: "jsstring \<Rightarrow> jsstring \<Rightarrow> monitor_state \<Rightarrow> nat" where
  "dispatchCount sender body st =
     length (filter (\<lambda>d. msgName (fst d) = sender \<and> msgText (fst d) = body) (dispatched st))"

text \<open>In the words of the specification: a message is the bot's own when its sender is the
  configured bot name, or its text is one of the two reply tokens or the configured message
  text.\<close>

definition isSelfMessage :: "AppConfig \<Rightarrow> message \<Rightarrow> bool" where
  "isSelfMessage cfg msg =
     (msgName msg = botName cfg \<or> msgText msg = js ''roger'' \<or> msgText msg = js ''dong''
      \<or> msgText msg = messageText cfg)"

text \<open>What holds of the replies for one sender and text all along a run: either none was
  dispatched, or their key is in the set and one was.\<close>

definition dedupInv :: "jsstring \<Rightarrow> jsstring \<Rightarrow> monitor_state \<Rightarrow> bool" where
  "dedupInv sender body st =
     (dispatchCount sender body st = 0
      \<or> (sender @ js '':'' @ body \<in> seenMessages st \<and> dispatchCount sender body st \<le> 1))"

section \<open>The workflow\<close>

text \<open>
  What the session does at each stage of \<open>joinAndChat\<close>. Joining, waiting for admission and
  monitoring run the functions above on what the surface does then; of the other stages it is
  given whether they complete or raise, and of the page whether it is closed when an error
  reaches the handler.
\<close>

record session_env =
  gotoResult :: "error option"
  resolveSurfaceResult :: "error option"
  fillDisplayNameResult :: "error option"
  joinSurface :: join_env
  admissionSurface :: admission_env
  sendChatMessageResult :: "error option"
  monitorScript :: "iteration list"
  leaveMeetingResult :: "error option"
  pageIsClosed :: bool
  screenshotResult :: "rejection option"

datatype stage =
    Goto jsstring
  | AcceptCookies
  | ResolveSurface
  | FillDisplayName
  | SubmitJoin
  | WaitForAdmission
  | SendChatMessage
  | MonitorChatMessages
  | LeaveMeeting
  | FailureScreenshot

text \<open>\<open>StillMonitoring\<close>: the list of passes ended with the loop still polling.\<close>

datatype outcome = Completed | Raised error | StillMonitoring

definition raised :: "error + unit \<Rightarrow> error option" where
  "raised r = (case r of Inl e \<Rightarrow> Some e | Inr u \<Rightarrow> None)"

definition stageResult :: "stage \<Rightarrow> error option \<Rightarrow> outcome \<times> stage list" where
  "stageResult s r = (case r of None \<Rightarrow> (Completed, [s]) | Some e \<Rightarrow> (Raised e, [s]))"

text \<open>Sequencing: the second part runs when the first completed.\<close>

definition andThen :: "outcome \<times> stage list \<Rightarrow> outcome \<times> stage list \<Rightarrow> outcome \<times> stage list" where
  "andThen a b = (case fst a of Completed \<Rightarrow> (fst b, snd a @ snd b) | Raised e \<Rightarrow> a | StillMonitoring \<Rightarrow> a)"

definition monitorStage ::
  "(jsstring \<Rightarrow> jsstring) \<Rightarrow> AppConfig \<Rightarrow> session_env \<Rightarrow> outcome \<times> stage list" where
  "monitorStage lower cfg env =
     (if monitorMessages cfg
      then
        (case monitorChatMessages lower cfg (monitorScript env) of
           Running st \<Rightarrow> (StillMonitoring, [MonitorChatMessages])
         | Returned st \<Rightarrow> (Completed, [MonitorChatMessages])
         | Threw e st \<Rightarrow> (Raised e, [MonitorChatMessages]))
      else (Completed, []))"

text \<open>The body of the \<open>try\<close>.\<close>

definition joinAndChatBody ::
  "(jsstring \<Rightarrow> jsstring) \<Rightarrow> AppConfig \<Rightarrow> session_env \<Rightarrow> outcome \<times> stage list" where
  "joinAndChatBody lower cfg env =
     andThen (stageResult (Goto (webClientUrl cfg)) (gotoResult env))
    (andThen (stageResult AcceptCookies None)
    (andThen (stageResult ResolveSurface (resolveSurfaceResult env))
    (andThen (stageResult FillDisplayName (fillDisplayNameResult env))
    (andThen (stageResult SubmitJoin (raised (fst (submitJoin (joinSurface env)))))
    (andThen (stageResult WaitForAdmission
                (raised (fst (waitForAdmission cfg (admissionSurface env)))))
    (andThen (stageResult SendChatMessage (sendChatMessageResult env))
    (andThen (monitorStage lower cfg env)
             (stageResult LeaveMeeting (leaveMeetingResult env)))))))))"

text \<open>The \<open>catch\<close>: a screenshot when the page is still open, its own failure ignored, then the
  same error again.\<close>

definition joinAndChat ::
  "(jsstring \<Rightarrow> jsstring) \<Rightarrow> AppConfig \<Rightarrow> session_env \<Rightarrow> outcome \<times> stage list" where
  "joinAndChat lower cfg env =
     (case fst (joinAndChatBody lower cfg env) of
        Raised e \<Rightarrow>
          if pageIsClosed env then (Raised e, snd (joinAndChatBody lower cfg env))
          else (Raised e, snd (joinAndChatBody lower cfg env) @ [FailureScreenshot])
      | Completed \<Rightarrow> joinAndChatBody lower cfg env
      | StillMonitoring \<Rightarrow> joinAndChatBody lower cfg env)"

section \<open>The web-client address\<close>







section \<open>Examples\<close>

text \<open>A lower-casing for strings of ASCII characters and letters of the Greek alphabet. It
  agrees with the platform's on every such string in which no capital sigma stands next to a
  punctuation mark: a capital goes to its small letter, and a capital sigma that follows a
  letter and is followed by none goes to the final sigma.\<close>

definition isCased :: "nat \<Rightarrow> bool" where
  "isCased c =
     ((0x41 \<le> c \<and> c \<le> 0x5A) \<or> (0x61 \<le> c \<and> c \<le> 0x7A)
      \<or> (0x391 \<le> c \<and> c \<le> 0x3A9 \<and> c \<noteq> 0x3A2) \<or> (0x3B1 \<le> c \<and> c \<le> 0x3C9))"

definition lowerUnit :: "nat \<Rightarrow> nat" where
  "lowerUnit c =
     (if (0x41 \<le> c \<and> c \<le> 0x5A) \<or> (0x391 \<le> c \<and> c \<le> 0x3A9 \<and> c \<noteq> 0x3A2)
      then c + 0x20 else c)"

fun lowerFrom :: "bool \<Rightarrow> jsstring \<Rightarrow> jsstring" where
  "lowerFrom afterCased [] = []"
| "lowerFrom afterCased (c # cs) =
     (if c = 0x3A3 \<and> afterCased \<and> \<not> (case cs of [] \<Rightarrow> False | d # ds \<Rightarrow> isCased d)
      then 0x3C2 else lowerUnit c)
     # lowerFrom (isCased c) cs"

definition lowerBasic :: "jsstring \<Rightarrow> jsstring" where
  "lowerBasic s = lowerFrom False s"

text \<open>A surface with no overlay on it, a surface whose overlays resist every attempt, and a
  surface that has gone.\<close>

definition quietModals :: modal_env where
  "quietModals =
     \<lparr>overlayCount = Inr 0, dismissClick = (\<lambda>s. None), escapePress = None,
      waitAfterEscape = None, remainingCount = Inr 0, forceRemove = Inr 0,
      waitAfterRemove = None\<rparr>"

definition stubbornModals :: modal_env where
  "stubbornModals =
     \<lparr>overlayCount = Inr 2,
      dismissClick = (\<lambda>s. Some ''Timeout 300ms exceeded''),
      escapePress = Some ''Target closed'',
      waitAfterEscape = None,
      remainingCount = Inr 1,
      forceRemove = Inl ''Execution context was destroyed'',
      waitAfterRemove = None\<rparr>"

definition closedSurfaceModals :: modal_env where
  "closedSurfaceModals = quietModals\<lparr>overlayCount := Inl ''Target closed''\<rparr>"

text \<open>The configuration with every default, for a meeting at \<open>x.zoom.us\<close>.\<close>

definition defaultConfig :: AppConfig where
  "defaultConfig =
     \<lparr>zoomUrl = js ''https://x.zoom.us/j/123'',
      botName = js ''Friday BOT'',
      messageText = js ''I'm in.'',
      monitorMessages = True,
      headless = True,
      navigationTimeoutMs = 30000,
      nameInputTimeoutMs = 5000,
      lobbyTimeoutMs = 60000,
      chatTimeoutMs = 1000,
      postLeaveDelayMs = 500,
      webClientUrl = js ''https://x.zoom.us/wc/join/123''\<rparr>"

text \<open>A room without a lobby: two of the four in-meeting controls are up, one probe is
  rejected.\<close>

definition admittedAtOnce :: admission_env where
  "admittedAtOnce =
     \<lparr>admissionSettle = None,
      leaveButtonVisible = Inr False,
      waitingTextVisible = Inr False,
      joinAudioButtonVisible = Inr True,
      participantsButtonVisible = Inl ''detached'',
      chatButtonVisible = Inr True,
      videoButtonVisible = Inr False,
      leaveButtonWait = (\<lambda>n. Some ''Timeout 1000ms exceeded''),
      errorTextVisible = (\<lambda>n. Inr False)\<rparr>"

text \<open>Chat messages, a chat input that takes a reply, and a chat input that cannot be
  found.\<close>

definition helloMsg :: message where
  "helloMsg = \<lparr>msgName = js ''Alice'', msgText = js ''hello'', fullText = js ''Alice hello''\<rparr>"

definition mentionMsg :: message where
  "mentionMsg =
     \<lparr>msgName = js ''Alice'', msgText = js '' ping FRIDAY bot '',
      fullText = js ''Alice ping FRIDAY bot''\<rparr>"

definition quitMsg :: message where
  "quitMsg = \<lparr>msgName = js ''Bob'', msgText = js '' Quit '', fullText = js ''Bob Quit''\<rparr>"

definition readyReply :: reply_env where
  "readyReply =
     \<lparr>resolveChatInput = Inr (Some (ByRole ''textbox'' ''/Chat Input/i'')),
      replyFill = None, replyPress = None\<rparr>"

definition lostReply :: reply_env where
  "lostReply = \<lparr>resolveChatInput = Inr None, replyFill = None, replyPress = None\<rparr>"

text \<open>A pass whose poll is rejected, nine and ten of them, a pass that finds no message, and a
  pass that finds no message and whose wait of 500 ms is rejected while the wait of the error
  handler completes.\<close>

definition lostPoll :: iteration where
  "lostPoll =
     \<lparr>poll = Inl ''Execution context was destroyed'',
      replyEnv = (\<lambda>i. lostReply),
      waitAfterPoll = None, waitAfterError = None\<rparr>"

definition nineLostPolls :: "iteration list" where
  "nineLostPolls =
     [lostPoll, lostPoll, lostPoll, lostPoll, lostPoll, lostPoll, lostPoll, lostPoll, lostPoll]"

definition tenLostPolls :: "iteration list" where
  "tenLostPolls = lostPoll # nineLostPolls"

definition quietPoll :: iteration where
  "quietPoll =
     \<lparr>poll = Inr [], replyEnv = (\<lambda>i. lostReply), waitAfterPoll = None, waitAfterError = None\<rparr>"

definition brokenWaitPoll :: iteration where
  "brokenWaitPoll = quietPoll\<lparr>waitAfterPoll := Some ''Frame was detached''\<rparr>"

text \<open>A join form whose second candidate is up, a join form where nothing is reported
  visible and the wait after the first click is rejected, and a session in which every stage
  goes through.\<close>

definition quietJoin :: join_env where
  "quietJoin =
     \<lparr>joinModals = quietModals,
      joinVisible = (\<lambda>l. Inr (l = Css ''button:has-text(\"Join\")'')),
      joinClick = (\<lambda>l. None),
      joinSettle = None,
      joinFallbackSettle = (\<lambda>l. None),
      joinEnter = None, joinEnterSettle = None\<rparr>"

definition hiddenJoin :: join_env where
  "hiddenJoin =
     \<lparr>joinModals = quietModals,
      joinVisible = (\<lambda>l. Inr False),
      joinClick = (\<lambda>l. if l = Css ''[data-qa=\"join-meeting\"]''
                        then Some ''Timeout 1000ms exceeded'' else None),
      joinSettle = None,
      joinFallbackSettle = (\<lambda>l. if l = Css ''button:has-text(\"Join\")'' then None
                                 else Some ''Frame was detached''),
      joinEnter = None, joinEnterSettle = None\<rparr>"

definition smoothSession :: session_env where
  "smoothSession =
     \<lparr>gotoResult = None, resolveSurfaceResult = None, fillDisplayNameResult = None,
      joinSurface = quietJoin, admissionSurface = admittedAtOnce, sendChatMessageResult = None,
      monitorScript = [], leaveMeetingResult = None, pageIsClosed = False,
      screenshotResult = None\<rparr>"

text \<open>A configuration with a message of its own, the bot's first message as the chat shows
  it to the bot, and a participant writing the default message.\<close>

definition greetingConfig :: AppConfig where
  "greetingConfig = defaultConfig\<lparr>messageText := js ''Hello everyone''\<rparr>"

definition ownGreeting :: message where
  "ownGreeting =
     \<lparr>msgName = js ''You'', msgText = js ''Hello everyone'', fullText = js ''You Hello everyone''\<rparr>"

definition defaultGreeting :: message where
  "defaultGreeting =
     \<lparr>msgName = js ''Alice'', msgText = js ''I'm in.'', fullText = js ''Alice I'm in.''\<rparr>"

text \<open>A bot named in Greek capitals, omicron delta omicron sigma, and a message whose text is
  that name followed by a capital alpha.\<close>

definition odosConfig :: AppConfig where
  "odosConfig = defaultConfig\<lparr>botName := [0x39F, 0x394, 0x39F, 0x3A3]\<rparr>"

definition odosMsg :: message where
  "odosMsg =
     \<lparr>msgName = js ''Alice'', msgText = [0x39F, 0x394, 0x39F, 0x3A3, 0x391],
      fullText = js ''Alice '' @ [0x39F, 0x394, 0x39F, 0x3A3, 0x391]\<rparr>"












section \<open>Resolution by priority\<close>

lemma firstVisible_enumerate_first:
  "k < length cands \<Longrightarrow> probeVisible isV (cands ! k) \<Longrightarrow>
   (\<And>j. j < k \<Longrightarrow> \<not> probeVisible isV (cands ! j)) \<Longrightarrow>
   firstVisible (map (\<lambda>(index, locator). (index, locator, probeVisible isV locator)) (enumerate n cands))
     = Some (n + k, cands ! k)"
proof (induction cands arbitrary: n k)
  case Nil
  then show ?case by simp
next
  case (Cons c cs)
  show ?case
  proof (cases k)
    case 0
    with Cons.prems show ?thesis by simp
  next
    case (Suc k')
    have hd_hidden: "\<not> probeVisible isV c"
      using Cons.prems(3)[of 0] Suc by simp
    have "firstVisible (map (\<lambda>(index, locator). (index, locator, probeVisible isV locator)) (enumerate (Suc n) cs))
            = Some (Suc n + k', cs ! k')"
    proof (rule Cons.IH)
      show "k' < length cs" using Cons.prems(1) Suc by simp
      show "probeVisible isV (cs ! k')" using Cons.prems(2) Suc by simp
      show "\<not> probeVisible isV (cs ! j)" if "j < k'" for j
        using Cons.prems(3)[of "Suc j"] that Suc by simp
    qed
    with hd_hidden Suc show ?thesis by simp
  qed
qed

lemma firstVisible_enumerate_none:
  "(\<And>j. j < length cands \<Longrightarrow> \<not> probeVisible isV (cands ! j)) \<Longrightarrow>
   firstVisible (map (\<lambda>(index, locator). (index, locator, probeVisible isV locator)) (enumerate n cands))
     = None"
proof (induction cands arbitrary: n)
  case Nil
  then show ?case by simp
next
  case (Cons c cs)
  have "\<not> probeVisible isV c" using Cons.prems[of 0] by simp
  moreover have "firstVisible (map (\<lambda>(index, locator). (index, locator, probeVisible isV locator)) (enumerate (Suc n) cs)) = None"
    by (rule Cons.IH) (use Cons.prems[of "Suc j" for j] in auto)
  ultimately show ?case by simp
qed

lemma fallbackWait_enumerate_first:
  "k < length cands \<Longrightarrow> waitFor (cands ! k) = None \<Longrightarrow>
   (\<And>j. j < k \<Longrightarrow> waitFor (cands ! j) \<noteq> None) \<Longrightarrow>
   fallbackWait waitFor (enumerate n cands) = Some (n + k, cands ! k)"
proof (induction cands arbitrary: n k)
  case Nil
  then show ?case by simp
next
  case (Cons c cs)
  show ?case
  proof (cases k)
    case 0
    with Cons.prems show ?thesis by simp
  next
    case (Suc k')
    have hd_fails: "waitFor c \<noteq> None"
      using Cons.prems(3)[of 0] Suc by simp
    have "fallbackWait waitFor (enumerate (Suc n) cs) = Some (Suc n + k', cs ! k')"
    proof (rule Cons.IH)
      show "k' < length cs" using Cons.prems(1) Suc by simp
      show "waitFor (cs ! k') = None" using Cons.prems(2) Suc by simp
      show "waitFor (cs ! j) \<noteq> None" if "j < k'" for j
        using Cons.prems(3)[of "Suc j"] that Suc by simp
    qed
    with hd_fails Suc show ?thesis by auto
  qed
qed

lemma fallbackClick_enumerate_first:
  "k < length cands \<Longrightarrow> click (cands ! k) = None \<Longrightarrow> settle (cands ! k) = None \<Longrightarrow>
   (\<And>j. j < k \<Longrightarrow> click (cands ! j) \<noteq> None \<or> settle (cands ! j) \<noteq> None) \<Longrightarrow>
   fallbackClick click settle (enumerate n cands)
     = (True, map (\<lambda>j. ClickJoin (n + j) (cands ! j)) [0..<Suc k])"
proof (induction cands arbitrary: n k)
  case Nil
  then show ?case by simp
next
  case (Cons c cs)
  show ?case
  proof (cases k)
    case 0
    with Cons.prems show ?thesis by simp
  next
    case (Suc k')
    have hd_fails: "click c \<noteq> None \<or> settle c \<noteq> None"
      using Cons.prems(4)[of 0] Suc by simp
    have ih: "fallbackClick click settle (enumerate (Suc n) cs)
            = (True, map (\<lambda>j. ClickJoin (Suc n + j) (cs ! j)) [0..<Suc k'])"
    proof (rule Cons.IH)
      show "k' < length cs" using Cons.prems(1) Suc by simp
      show "click (cs ! k') = None" using Cons.prems(2) Suc by simp
      show "settle (cs ! k') = None" using Cons.prems(3) Suc by simp
      show "click (cs ! j) \<noteq> None \<or> settle (cs ! j) \<noteq> None" if "j < k'" for j
        using Cons.prems(4)[of "Suc j"] that Suc by simp
    qed
    have shift: "map (\<lambda>j. ClickJoin (n + j) ((c # cs) ! j)) [0..<Suc (Suc k')]
        = ClickJoin n c # map (\<lambda>j. ClickJoin (Suc n + j) (cs ! j)) [0..<Suc k']"
      by (simp add: upt_conv_Cons map_Suc_upt[symmetric] del: upt_Suc)
    from hd_fails ih shift Suc show ?thesis
      by (auto split: option.splits)
  qed
qed

lemma resolve_parallel:
  assumes "k < length candidates" "probeVisible isVisible (candidates ! k)"
    and "\<forall>j<k. \<not> probeVisible isVisible (candidates ! j)"
  shows "firstVisible (visibilityChecks isVisible candidates) = Some (k, candidates ! k)"
proof -
  have "firstVisible (visibilityChecks isVisible candidates) = Some (0 + k, candidates ! k)"
    unfolding visibilityChecks_def
    by (rule firstVisible_enumerate_first) (use assms in auto)
  then show ?thesis by simp
qed

lemma resolve_parallel_none:
  assumes "\<forall>j<length candidates. \<not> probeVisible isVisible (candidates ! j)"
  shows "firstVisible (visibilityChecks isVisible candidates) = None"
  unfolding visibilityChecks_def
  by (rule firstVisible_enumerate_none) (use assms in auto)

text \<open>
  Claim C3 (resolver priority). Let \<open>k\<close> be an index of the candidate list. When candidate
  \<open>k\<close> is reported visible by the probes issued together and no candidate before it is (so
  in particular when it is the only one visible), resolution returns candidate \<open>k\<close>, whatever
  the candidates after it report. When no candidate is reported visible, the sequential phase
  returns the first candidate whose wait completes. The join form does the same with clicks:
  it clicks the first candidate reported visible and no other; and when none is reported
  visible, its fallback clicks the candidates in list order and returns at the first for which
  the click and the wait after it both complete.
\<close>

theorem resolver_priority:
  "k < length candidates \<Longrightarrow>
     (probeVisible isVisible (candidates ! k)
        \<and> (\<forall>j<k. \<not> probeVisible isVisible (candidates ! j))
      \<longrightarrow> resolveCandidates isVisible waitFor candidates = Some (k, candidates ! k))
   \<and> ((\<forall>j<length candidates. \<not> probeVisible isVisible (candidates ! j))
        \<and> waitFor (candidates ! k) = None
        \<and> (\<forall>j<k. waitFor (candidates ! j) \<noteq> None)
      \<longrightarrow> resolveCandidates isVisible waitFor candidates = Some (k, candidates ! k))
   \<and> (fst (dismissBlockingModals (joinModals env)) = Inr ()
        \<and> probeVisible (joinVisible env) (joinList ! k)
        \<and> (\<forall>j<k. \<not> probeVisible (joinVisible env) (joinList ! j))
        \<and> k < length joinList
      \<longrightarrow> snd (submitJoinOn joinList env) = [ClickJoin k (joinList ! k)])
   \<and> (fst (dismissBlockingModals (joinModals env)) = Inr ()
        \<and> (\<forall>j<length joinList. \<not> probeVisible (joinVisible env) (joinList ! j))
        \<and> joinClick env (joinList ! k) = None
        \<and> joinFallbackSettle env (joinList ! k) = None
        \<and> (\<forall>j<k. joinClick env (joinList ! j) \<noteq> None
                  \<or> joinFallbackSettle env (joinList ! j) \<noteq> None)
        \<and> k < length joinList
      \<longrightarrow> submitJoinOn joinList env
            = (Inr (), map (\<lambda>j. ClickJoin j (joinList ! j)) [0..<Suc k]))"
proof (intro conjI impI)
  assume k: "k < length candidates"
  {
    assume "probeVisible isVisible (candidates ! k)
        \<and> (\<forall>j<k. \<not> probeVisible isVisible (candidates ! j))"
    then have "firstVisible (visibilityChecks isVisible candidates) = Some (k, candidates ! k)"
      using k by (intro resolve_parallel) auto
    then show "resolveCandidates isVisible waitFor candidates = Some (k, candidates ! k)"
      by (simp add: resolveCandidates_def)
  }
  {
    assume b: "(\<forall>j<length candidates. \<not> probeVisible isVisible (candidates ! j))
        \<and> waitFor (candidates ! k) = None
        \<and> (\<forall>j<k. waitFor (candidates ! j) \<noteq> None)"
    then have none: "firstVisible (visibilityChecks isVisible candidates) = None"
      by (intro resolve_parallel_none) auto
    have "fallbackWait waitFor (enumerate 0 candidates) = Some (0 + k, candidates ! k)"
      by (rule fallbackWait_enumerate_first) (use k b in auto)
    with none show "resolveCandidates isVisible waitFor candidates = Some (k, candidates ! k)"
      by (simp add: resolveCandidates_def)
  }
  {
    assume c: "fst (dismissBlockingModals (joinModals env)) = Inr ()
        \<and> probeVisible (joinVisible env) (joinList ! k)
        \<and> (\<forall>j<k. \<not> probeVisible (joinVisible env) (joinList ! j))
        \<and> k < length joinList"
    then have "firstVisible (visibilityChecks (joinVisible env) joinList) = Some (k, joinList ! k)"
      by (intro resolve_parallel) auto
    with c show "snd (submitJoinOn joinList env) = [ClickJoin k (joinList ! k)]"
      by (simp add: submitJoinOn_def split: option.splits)
  }
  {
    assume d: "fst (dismissBlockingModals (joinModals env)) = Inr ()
        \<and> (\<forall>j<length joinList. \<not> probeVisible (joinVisible env) (joinList ! j))
        \<and> joinClick env (joinList ! k) = None
        \<and> joinFallbackSettle env (joinList ! k) = None
        \<and> (\<forall>j<k. joinClick env (joinList ! j) \<noteq> None
                  \<or> joinFallbackSettle env (joinList ! j) \<noteq> None)
        \<and> k < length joinList"
    then have none: "firstVisible (visibilityChecks (joinVisible env) joinList) = None"
      by (intro resolve_parallel_none) auto
    have "fallbackClick (joinClick env) (joinFallbackSettle env) (enumerate 0 joinList)
            = (True, map (\<lambda>j. ClickJoin (0 + j) (joinList ! j)) [0..<Suc k])"
      by (rule fallbackClick_enumerate_first) (use d in auto)
    with none d
    show "submitJoinOn joinList env
            = (Inr (), map (\<lambda>j. ClickJoin j (joinList ! j)) [0..<Suc k])"
      by (simp add: submitJoinOn_def)
  }
qed

theorem resolver_priority_witness:
  "findChatInputCandidates
     (\<lambda>l. if l = ByRole ''textbox'' ''/Message/i'' \<or> l = Css ''div[contenteditable=\"true\"]''
           then Inr True
           else if l = ByRole ''textbox'' ''/Chat Input/i'' then Inl ''detached''
           else Inr False)
     (\<lambda>l. Some ''Timeout 300ms exceeded'')
     = Some (ByRole ''textbox'' ''/Message/i'')
   \<and> findChatInputCandidates
     (\<lambda>l. Inr False)
     (\<lambda>l. if l = ByRole ''textbox'' ''/Type.*message/i'' \<or> l = Css ''.chat-box__chat-textarea''
           then None else Some ''Timeout 300ms exceeded'')
     = Some (ByRole ''textbox'' ''/Type.*message/i'')
   \<and> submitJoin quietJoin = (Inr (), [ClickJoin 1 (Css ''button:has-text(\"Join\")'')])
   \<and> submitJoin hiddenJoin
     = (Inr (),
        [ClickJoin 0 (ByRole ''button'' ''/^Join(?: Meeting)?$/i''),
         ClickJoin 1 (Css ''button:has-text(\"Join\")'')])"
proof -
  have parallel: "findChatInputCandidates
     (\<lambda>l. if l = ByRole ''textbox'' ''/Message/i'' \<or> l = Css ''div[contenteditable=\"true\"]''
           then Inr True
           else if l = ByRole ''textbox'' ''/Chat Input/i'' then Inl ''detached''
           else Inr False)
     (\<lambda>l. Some ''Timeout 300ms exceeded'')
     = Some (ByRole ''textbox'' ''/Message/i'')"
    and fallback: "submitJoin hiddenJoin
     = (Inr (),
        [ClickJoin 0 (ByRole ''button'' ''/^Join(?: Meeting)?$/i''),
         ClickJoin 1 (Css ''button:has-text(\"Join\")'')])"
    using resolver_priority
      [where k = 1 and candidates = chatInputCandidates and joinList = joinCandidates
         and isVisible = "\<lambda>l. if l = ByRole ''textbox'' ''/Message/i'' \<or> l = Css ''div[contenteditable=\"true\"]''
             then Inr True
             else if l = ByRole ''textbox'' ''/Chat Input/i'' then Inl ''detached''
             else Inr False"
         and waitFor = "\<lambda>l. Some ''Timeout 300ms exceeded''"
         and env = hiddenJoin]
    by (simp_all add: findChatInputCandidates_def chatInputCandidates_def joinCandidates_def
        submitJoin_def probeVisible_def hiddenJoin_def quietModals_def dismissBlockingModals_def)
  have sequential: "findChatInputCandidates
     (\<lambda>l. Inr False)
     (\<lambda>l. if l = ByRole ''textbox'' ''/Type.*message/i'' \<or> l = Css ''.chat-box__chat-textarea''
           then None else Some ''Timeout 300ms exceeded'')
     = Some (ByRole ''textbox'' ''/Type.*message/i'')"
    using resolver_priority
      [where k = "Suc (Suc 0)" and candidates = chatInputCandidates and joinList = joinCandidates
         and isVisible = "\<lambda>l. Inr False"
         and waitFor = "\<lambda>l. if l = ByRole ''textbox'' ''/Type.*message/i''
                                 \<or> l = Css ''.chat-box__chat-textarea''
                              then None else Some ''Timeout 300ms exceeded''"
         and env = hiddenJoin]
    by (simp add: findChatInputCandidates_def chatInputCandidates_def probeVisible_def
        less_Suc_eq)
  have "snd (submitJoin quietJoin) = [ClickJoin 1 (Css ''button:has-text(\"Join\")'')]"
    using resolver_priority
      [where k = 1 and candidates = joinCandidates and joinList = joinCandidates
         and isVisible = "joinVisible quietJoin" and waitFor = "\<lambda>l. None" and env = quietJoin]
    by (simp add: joinCandidates_def submitJoin_def probeVisible_def quietJoin_def
        quietModals_def dismissBlockingModals_def)
  moreover have "fst (submitJoin quietJoin) = Inr ()"
    by (simp add: submitJoin_def submitJoinOn_def quietJoin_def quietModals_def
        dismissBlockingModals_def joinCandidates_def visibilityChecks_def probeVisible_def)
  ultimately have visible: "submitJoin quietJoin
      = (Inr (), [ClickJoin 1 (Css ''button:has-text(\"Join\")'')])"
    by (simp add: prod_eq_iff)
  from parallel sequential visible fallback show ?thesis by simp
qed

section \<open>Admission\<close>

lemma count_settled:
  "length (filter (\<lambda>s. fst s \<in> set [''joinAudioButton'', ''participantsButton'', ''chatButton'', ''videoButton''] \<and> snd s) (settled nm r))
     = (if nm \<in> set [''joinAudioButton'', ''participantsButton'', ''chatButton'', ''videoButton''] \<and> r = Inr True then 1 else 0)"
  by (cases r) (auto simp: settled_def)

lemma inMeetingButtons_count: "length (inMeetingButtons env) = visibleIndicatorCount env"
  unfolding inMeetingButtons_def visibilityState_def filter_append length_append count_settled
  by (simp add: visibleIndicatorCount_def)

text \<open>
  Claim C7 (admission shortcut). When the settle delay has passed and at least two of the four
  in-meeting controls (join audio, participants, chat, video) are reported visible by the
  probes issued together, \<open>waitForAdmission\<close> returns normally right after the probes: the
  polling loop of the lobby makes no attempt at all.
\<close>

theorem admission_shortcut:
  "admissionSettle env = None \<Longrightarrow> 2 \<le> visibleIndicatorCount env \<Longrightarrow>
     waitForAdmission cfg env = (Inr (), [ProbeIndicators])
     \<and> LobbyAttempt n \<notin> set (snd (waitForAdmission cfg env))"
  by (simp add: waitForAdmission_def inMeetingButtons_count)

theorem admission_shortcut_witness:
  "waitForAdmission defaultConfig admittedAtOnce = (Inr (), [ProbeIndicators])
   \<and> LobbyAttempt 1 \<notin> set (snd (waitForAdmission defaultConfig admittedAtOnce))"
proof -
  have settle: "admissionSettle admittedAtOnce = None"
    by (simp add: admittedAtOnce_def)
  have two: "2 \<le> visibleIndicatorCount admittedAtOnce"
    by (simp add: admittedAtOnce_def visibleIndicatorCount_def)
  from admission_shortcut[OF settle two] show ?thesis .
qed

section \<open>Overlays\<close>

text \<open>
  Claim C9 (modal dismissal), as amended. When the first overlay count is zero,
  \<open>dismissBlockingModals\<close> returns at once, having attempted no click, no Escape and no
  removal. Whether it returns normally does not depend on what becomes of the dismiss clicks,
  of the Escape key and of the removal script: it is decided by the two overlay counts and the
  two timed waits alone. A rejection of the first count is raised to the caller before anything
  is attempted. With a first count above zero, a rejection of the wait after the Escape key is
  raised; when that wait completes, a rejection of the second count is raised; when the second
  count is zero the call returns normally and the wait after the removal is not made; when the
  second count is above zero the removal is run, a rejection of the wait after it is raised, and
  the call returns normally when that wait completes.
\<close>

theorem modal_dismissal_guarded:
  "(overlayCount env = Inr 0 \<longrightarrow> dismissBlockingModals env = (Inr (), []))
   \<and> (overlayCount env = Inl r \<longrightarrow> dismissBlockingModals env = (Inl (BrowserError r), []))
   \<and> (overlayCount env = Inr (Suc n) \<and> waitAfterEscape env = Some r
      \<longrightarrow> fst (dismissBlockingModals env) = Inl (BrowserError r))
   \<and> (overlayCount env = Inr (Suc n) \<and> waitAfterEscape env = None
        \<and> remainingCount env = Inl r
      \<longrightarrow> fst (dismissBlockingModals env) = Inl (BrowserError r))
   \<and> (overlayCount env = Inr (Suc n) \<and> waitAfterEscape env = None
        \<and> remainingCount env = Inr 0
      \<longrightarrow> dismissBlockingModals env = (Inr (), dismissAttempts env))
   \<and> (overlayCount env = Inr (Suc n) \<and> waitAfterEscape env = None
        \<and> remainingCount env = Inr (Suc m) \<and> waitAfterRemove env = Some r
      \<longrightarrow> dismissBlockingModals env
            = (Inl (BrowserError r), dismissAttempts env @ [ForceRemovePortals (forceRemove env)]))
   \<and> (overlayCount env = Inr (Suc n) \<and> waitAfterEscape env = None
        \<and> remainingCount env = Inr (Suc m) \<and> waitAfterRemove env = None
      \<longrightarrow> dismissBlockingModals env
            = (Inr (), dismissAttempts env @ [ForceRemovePortals (forceRemove env)]))
   \<and> fst (dismissBlockingModals
             (env\<lparr>dismissClick := clicks, escapePress := escape, forceRemove := removal\<rparr>))
       = fst (dismissBlockingModals env)"
  by (simp add: dismissBlockingModals_def split: sum.splits option.splits)

theorem modal_dismissal_guarded_witness:
  "dismissBlockingModals quietModals = (Inr (), [])
   \<and> dismissBlockingModals (stubbornModals\<lparr>overlayCount := Inl ''Target closed''\<rparr>)
       = (Inl (BrowserError ''Target closed''), [])
   \<and> fst (dismissBlockingModals (stubbornModals\<lparr>waitAfterEscape := Some ''Target closed''\<rparr>))
       = Inl (BrowserError ''Target closed'')
   \<and> fst (dismissBlockingModals (stubbornModals\<lparr>remainingCount := Inl ''Frame was detached''\<rparr>))
       = Inl (BrowserError ''Frame was detached'')
   \<and> fst (dismissBlockingModals
            (stubbornModals\<lparr>remainingCount := Inr 0, waitAfterRemove := Some ''Target closed''\<rparr>))
       = Inr ()
   \<and> fst (dismissBlockingModals (stubbornModals\<lparr>waitAfterRemove := Some ''Target closed''\<rparr>))
       = Inl (BrowserError ''Target closed'')
   \<and> fst (dismissBlockingModals stubbornModals) = Inr ()
   \<and> fst (dismissBlockingModals
            (stubbornModals\<lparr>dismissClick := (\<lambda>s. None), escapePress := None, forceRemove := Inr 1\<rparr>))
       = Inr ()"
  using modal_dismissal_guarded[where env = quietModals]
    modal_dismissal_guarded
      [where env = "stubbornModals\<lparr>overlayCount := Inl ''Target closed''\<rparr>"
         and r = "''Target closed''"]
    modal_dismissal_guarded
      [where env = "stubbornModals\<lparr>waitAfterEscape := Some ''Target closed''\<rparr>"
         and r = "''Target closed''" and n = 1]
    modal_dismissal_guarded
      [where env = "stubbornModals\<lparr>remainingCount := Inl ''Frame was detached''\<rparr>"
         and r = "''Frame was detached''" and n = 1]
    modal_dismissal_guarded
      [where env = "stubbornModals\<lparr>remainingCount := Inr 0, waitAfterRemove := Some ''Target closed''\<rparr>"
         and n = 1]
    modal_dismissal_guarded
      [where env = "stubbornModals\<lparr>waitAfterRemove := Some ''Target closed''\<rparr>"
         and r = "''Target closed''" and n = 1 and m = 0]
    modal_dismissal_guarded
      [where env = stubbornModals and n = 1 and m = 0 and clicks = "\<lambda>s. None"
         and escape = None and removal = "Inr 1"]
  by (simp add: quietModals_def stubbornModals_def)

text \<open>On a surface that has gone the first overlay count is rejected, and so is the call.\<close>

theorem modal_dismissal_raises:
  "dismissBlockingModals closedSurfaceModals = (Inl (BrowserError ''Target closed''), [])"
  by (simp add: closedSurfaceModals_def quietModals_def dismissBlockingModals_def)

section \<open>Facts about strings\<close>

lemma str_includes_sublist: "str_includes s p \<longleftrightarrow> sublist p s"
  by (induction s) (auto simp: sublist_Cons_right)




section \<open>The monitoring loop\<close>

text \<open>The definitions that running the loop on given messages unfolds.\<close>

lemmas string_eval = js_def trim_def isWhiteSpace_def lowerBasic_def isCased_def lowerUnit_def

lemmas monitor_eval = messageKey_def isBotOwnMessage_def textLower_def markSeen_def
  dispatchReply_def replyToken_def mentionsBot_def sendQuickReply_def

lemma dispatchCount_markSeen [simp]:
  "dispatchCount sender body (markSeen msg st) = dispatchCount sender body st"
  by (simp add: dispatchCount_def markSeen_def)

lemma seenMessages_markSeen [simp]:
  "seenMessages (markSeen msg st) = insert (messageKey msg) (seenMessages st)"
  by (simp add: markSeen_def)

lemma seenMessages_dispatchReply [simp]:
  "seenMessages (dispatchReply lower cfg env msg st) = seenMessages st"
  by (simp add: dispatchReply_def)

lemma dispatchCount_dispatchReply:
  "dispatchCount sender body (dispatchReply lower cfg env msg st) =
     dispatchCount sender body st + (if msgName msg = sender \<and> msgText msg = body then 1 else 0)"
  by (simp add: dispatchCount_def dispatchReply_def)

lemma consecutiveErrors_markSeen [simp]:
  "consecutiveErrors (markSeen msg st) = consecutiveErrors st"
  by (simp add: markSeen_def)

lemma consecutiveErrors_dispatchReply [simp]:
  "consecutiveErrors (dispatchReply lower cfg env msg st) = consecutiveErrors st"
  by (simp add: dispatchReply_def)

lemma consecutiveErrors_processMessages:
  "consecutiveErrors (snd (processMessages lower cfg renv i st messages)) = consecutiveErrors st"
  by (induction messages arbitrary: i st) simp_all

lemma processMessages_append:
  "processMessages lower cfg renv i st (xs @ ys) =
     (if fst (processMessages lower cfg renv i st xs) then processMessages lower cfg renv i st xs
      else processMessages lower cfg renv (i + length xs) (snd (processMessages lower cfg renv i st xs)) ys)"
  by (induction xs arbitrary: i st) simp_all

text \<open>What the replies meet has no say in which messages are read, nor in whether the batch
  ends on the quit command.\<close>

lemma processMessages_replies_irrelevant:
  "seenMessages st = seenMessages st' \<Longrightarrow>
     fst (processMessages lower cfg renv i st messages) = fst (processMessages lower cfg renv' i st' messages)
     \<and> seenMessages (snd (processMessages lower cfg renv i st messages))
         = seenMessages (snd (processMessages lower cfg renv' i st' messages))"
proof (induction messages arbitrary: i st st')
  case Nil
  then show ?case by simp
next
  case (Cons msg messages)
  have a: "seenMessages (markSeen msg st) = seenMessages (markSeen msg st')"
    using Cons.prems by simp
  have b: "seenMessages (dispatchReply lower cfg (renv i) msg (markSeen msg st))
             = seenMessages (dispatchReply lower cfg (renv' i) msg (markSeen msg st'))"
    using Cons.prems by simp
  from Cons.prems Cons.IH[OF Cons.prems] Cons.IH[OF a] Cons.IH[OF b] show ?case
    by simp
qed

lemma monitorLoop_append:
  "monitorLoop lower cfg st (xs @ ys) =
     (case monitorLoop lower cfg st xs of
        Running st' \<Rightarrow> monitorLoop lower cfg st' ys
      | Returned st' \<Rightarrow> Returned st'
      | Threw e st' \<Rightarrow> Threw e st')"
  by (induction xs arbitrary: st) (simp_all split: run.splits)

subsection \<open>One reply for a sender and text\<close>

lemma dedupInv_markSeen: "dedupInv sender body st \<Longrightarrow> dedupInv sender body (markSeen msg st)"
  by (auto simp: dedupInv_def)

lemma dedupInv_reply:
  assumes "dedupInv sender body st" "messageKey msg \<notin> seenMessages st"
  shows "dedupInv sender body (dispatchReply lower cfg env msg (markSeen msg st))"
proof (cases "msgName msg = sender \<and> msgText msg = body")
  case True
  then have "sender @ js '':'' @ body \<notin> seenMessages st"
    using assms(2) by (simp add: messageKey_def)
  with assms(1) have "dispatchCount sender body st = 0"
    by (simp add: dedupInv_def)
  with True show ?thesis
    by (simp add: dedupInv_def dispatchCount_dispatchReply messageKey_def)
next
  case False
  with assms(1) show ?thesis
    by (auto simp: dedupInv_def dispatchCount_dispatchReply)
qed

lemma dedupInv_processMessages:
  "dedupInv sender body st \<Longrightarrow> dedupInv sender body (snd (processMessages lower cfg renv i st messages))"
proof (induction messages arbitrary: i st)
  case Nil
  then show ?case by simp
next
  case (Cons msg messages)
  then show ?case
    by (simp add: dedupInv_markSeen dedupInv_reply)
qed

lemma dedupInv_counter [simp]:
  "dedupInv sender body (st\<lparr>consecutiveErrors := c\<rparr>) = dedupInv sender body st"
  by (simp add: dedupInv_def dispatchCount_def)

lemma dedupInv_onPollError:
  "dedupInv sender body st \<Longrightarrow> dedupInv sender body (run_state (onPollError st it))"
  by (simp add: onPollError_def split: option.splits)

lemma dedupInv_monitorIteration:
  "dedupInv sender body st \<Longrightarrow> dedupInv sender body (run_state (monitorIteration lower cfg st it))"
  by (simp add: monitorIteration_def dedupInv_processMessages dedupInv_onPollError
      split: sum.splits option.splits)

lemma dedupInv_monitorLoop:
  "dedupInv sender body st \<Longrightarrow> dedupInv sender body (run_state (monitorLoop lower cfg st its))"
proof (induction its arbitrary: st)
  case Nil
  then show ?case by simp
next
  case (Cons it its)
  from Cons.prems have step: "dedupInv sender body (run_state (monitorIteration lower cfg st it))"
    by (rule dedupInv_monitorIteration)
  show ?case
  proof (cases "monitorIteration lower cfg st it")
    case (Running st')
    with step Cons.IH[of st'] show ?thesis by simp
  next
    case (Returned st')
    with step show ?thesis by simp
  next
    case (Threw e st')
    with step show ?thesis by simp
  qed
qed

text \<open>Once the key of a sender and text is in the set, no reply for them is added.\<close>

lemma seen_frozen_processMessages:
  "sender @ js '':'' @ body \<in> seenMessages st \<Longrightarrow>
     sender @ js '':'' @ body \<in> seenMessages (snd (processMessages lower cfg renv i st messages))
     \<and> dispatchCount sender body (snd (processMessages lower cfg renv i st messages))
         = dispatchCount sender body st"
proof (induction messages arbitrary: i st)
  case Nil
  then show ?case by simp
next
  case (Cons msg messages)
  show ?case
  proof (cases "messageKey msg \<in> seenMessages st")
    case True
    with Cons show ?thesis by simp
  next
    case False
    with Cons.prems have other: "\<not> (msgName msg = sender \<and> msgText msg = body)"
      by (auto simp: messageKey_def)
    have a: "sender @ js '':'' @ body \<in> seenMessages (markSeen msg st)"
      using Cons.prems by simp
    have b: "sender @ js '':'' @ body \<in> seenMessages (dispatchReply lower cfg (renv i) msg (markSeen msg st))"
      using Cons.prems by simp
    have c: "dispatchCount sender body (dispatchReply lower cfg (renv i) msg (markSeen msg st))
               = dispatchCount sender body st"
      using other by (auto simp: dispatchCount_dispatchReply)
    from False Cons.IH[OF a] Cons.IH[OF b] c Cons.prems show ?thesis
      by simp
  qed
qed

lemma seen_frozen_monitorIteration:
  "sender @ js '':'' @ body \<in> seenMessages st \<Longrightarrow>
     sender @ js '':'' @ body \<in> seenMessages (run_state (monitorIteration lower cfg st it))
     \<and> dispatchCount sender body (run_state (monitorIteration lower cfg st it))
         = dispatchCount sender body st"
  using seen_frozen_processMessages[of sender body st lower cfg "replyEnv it" 0]
  by (simp add: monitorIteration_def onPollError_def dispatchCount_def
      split: sum.splits option.splits)

lemma seen_frozen_monitorLoop:
  "sender @ js '':'' @ body \<in> seenMessages st \<Longrightarrow>
     dispatchCount sender body (run_state (monitorLoop lower cfg st its)) = dispatchCount sender body st"
proof (induction its arbitrary: st)
  case Nil
  then show ?case by simp
next
  case (Cons it its)
  note step = seen_frozen_monitorIteration[OF Cons.prems, of lower cfg it]
  show ?case
  proof (cases "monitorIteration lower cfg st it")
    case (Running st')
    with step Cons.IH[of st'] show ?thesis by simp
  next
    case (Returned st')
    with step show ?thesis by simp
  next
    case (Threw e st')
    with step show ?thesis by simp
  qed
qed

text \<open>
  Claim C4 (dedup idempotence). However often a sender and text are presented, in one batch or
  over any number of passes of one monitoring session, at most one reply is dispatched for
  them. A message whose key is already in the set is skipped with the state unchanged, and
  however the loop goes on from there, no further reply is dispatched for its sender and text.
\<close>

theorem dedup_idempotence:
  "dispatchCount sender body (run_state (monitorChatMessages lower cfg its)) \<le> 1
   \<and> (messageKey msg \<in> seenMessages st \<longrightarrow>
        processMessages lower cfg renv i st (msg # messages) = processMessages lower cfg renv (Suc i) st messages
        \<and> dispatchCount (msgName msg) (msgText msg) (run_state (monitorLoop lower cfg st its))
            = dispatchCount (msgName msg) (msgText msg) st)"
proof (intro conjI impI)
  have "dedupInv sender body initialMonitorState"
    by (simp add: dedupInv_def dispatchCount_def initialMonitorState_def)
  then have "dedupInv sender body (run_state (monitorChatMessages lower cfg its))"
    unfolding monitorChatMessages_def by (rule dedupInv_monitorLoop)
  then show "dispatchCount sender body (run_state (monitorChatMessages lower cfg its)) \<le> 1"
    by (auto simp: dedupInv_def)
next
  assume "messageKey msg \<in> seenMessages st"
  then show "processMessages lower cfg renv i st (msg # messages) = processMessages lower cfg renv (Suc i) st messages"
    by simp
next
  assume "messageKey msg \<in> seenMessages st"
  then have "msgName msg @ js '':'' @ msgText msg \<in> seenMessages st"
    by (simp add: messageKey_def)
  then show "dispatchCount (msgName msg) (msgText msg) (run_state (monitorLoop lower cfg st its))
            = dispatchCount (msgName msg) (msgText msg) st"
    by (rule seen_frozen_monitorLoop)
qed

theorem dedup_idempotence_witness:
  "dispatchCount (js ''Alice'') (js ''hello'')
     (run_state (monitorChatMessages lowerBasic defaultConfig
        [\<lparr>poll = Inr [helloMsg, helloMsg], replyEnv = (\<lambda>i. readyReply),
          waitAfterPoll = None, waitAfterError = None\<rparr>,
         \<lparr>poll = Inr [helloMsg], replyEnv = (\<lambda>i. readyReply),
          waitAfterPoll = None, waitAfterError = None\<rparr>])) = 1
   \<and> processMessages lowerBasic defaultConfig (\<lambda>i. readyReply) 0
        (markSeen helloMsg initialMonitorState) [helloMsg, helloMsg]
       = (False, markSeen helloMsg initialMonitorState)"
proof -
  let ?its = "[\<lparr>poll = Inr [helloMsg, helloMsg], replyEnv = (\<lambda>i. readyReply),
          waitAfterPoll = None, waitAfterError = None\<rparr>,
         \<lparr>poll = Inr [helloMsg], replyEnv = (\<lambda>i. readyReply),
          waitAfterPoll = None, waitAfterError = None\<rparr>]"
  have seen: "messageKey helloMsg \<in> seenMessages (markSeen helloMsg initialMonitorState)"
    by (simp add: markSeen_def)
  from dedup_idempotence
    [where sender = "js ''Alice''" and body = "js ''hello''" and lower = lowerBasic
       and cfg = defaultConfig and its = ?its and msg = helloMsg
       and st = "markSeen helloMsg initialMonitorState" and renv = "\<lambda>i. readyReply"
       and i = 0 and messages = "[helloMsg]"] seen
  have le: "dispatchCount (js ''Alice'') (js ''hello'')
              (run_state (monitorChatMessages lowerBasic defaultConfig ?its)) \<le> 1"
    and skip: "processMessages lowerBasic defaultConfig (\<lambda>i. readyReply) 0
                 (markSeen helloMsg initialMonitorState) (helloMsg # [helloMsg])
       = processMessages lowerBasic defaultConfig (\<lambda>i. readyReply) (Suc 0)
           (markSeen helloMsg initialMonitorState) [helloMsg]"
    by blast+
  have ge: "1 \<le> dispatchCount (js ''Alice'') (js ''hello'')
                  (run_state (monitorChatMessages lowerBasic defaultConfig ?its))"
    by (simp add: monitorChatMessages_def monitorIteration_def initialMonitorState_def
        helloMsg_def defaultConfig_def readyReply_def dispatchCount_def monitor_eval string_eval)
  from le ge skip seen show ?thesis by simp
qed

subsection \<open>The bot's own messages\<close>

text \<open>
  Claim C2 (self filter). The filter compares the text of a message with the two reply tokens
  and with the fixed text \<open>I'm in.\<close>, not with the message text of the configuration. With
  another message text configured, the bot's first message, shown to it under a sender name
  that is not its display name, is taken for a participant's and answered with \<open>roger\<close>.
\<close>

theorem self_filter_misses_configured_message:
  "msgText ownGreeting = messageText greetingConfig
   \<and> monitorChatMessages lowerBasic greetingConfig
        [\<lparr>poll = Inr [ownGreeting], replyEnv = (\<lambda>i. readyReply),
          waitAfterPoll = None, waitAfterError = None\<rparr>]
      = Running \<lparr>seenMessages = {js ''You:Hello everyone''}, consecutiveErrors = 0,
                 dispatched = [(ownGreeting, js ''roger'', True)]\<rparr>"
  by (simp add: monitorChatMessages_def monitorIteration_def initialMonitorState_def
      ownGreeting_def greetingConfig_def defaultConfig_def readyReply_def monitor_eval string_eval)

subsection \<open>The quit command\<close>

text \<open>
  Claim C5 (quit short-circuit). Take a batch with a message that the loop has not seen when
  it comes to it, that is not one of the bot's own, and whose text, lowered and trimmed, is
  \<open>quit\<close>. The loop returns in that pass (it neither goes on polling nor raises), no
  reply is dispatched for the message, and nothing depends on the messages after it in the
  batch or on the passes that would follow.
\<close>

theorem quit_short_circuit:
  assumes "poll it = Inr (earlier @ msg # later)"
    and "processMessages lower cfg (replyEnv it) 0 st earlier = (False, st1)"
    and "messageKey msg \<notin> seenMessages st1"
    and "\<not> isBotOwnMessage cfg msg"
    and "trim (lower (msgText msg)) = js ''quit''"
  shows "monitorLoop lower cfg st (it # its) = Returned (markSeen msg st1)
         \<and> dispatched (markSeen msg st1) = dispatched st1"
proof -
  have "processMessages lower cfg (replyEnv it) 0 st (earlier @ msg # later)
          = (True, markSeen msg st1)"
    using assms(2-5) by (simp add: processMessages_append textLower_def)
  with assms(1) have "monitorIteration lower cfg st it = Returned (markSeen msg st1)"
    by (simp add: monitorIteration_def)
  then show ?thesis by (simp add: markSeen_def)
qed

theorem quit_short_circuit_witness:
  "monitorLoop lowerBasic defaultConfig initialMonitorState
     [\<lparr>poll = Inr [helloMsg, quitMsg, mentionMsg], replyEnv = (\<lambda>i. readyReply),
       waitAfterPoll = None, waitAfterError = None\<rparr>,
      \<lparr>poll = Inr [mentionMsg], replyEnv = (\<lambda>i. readyReply),
       waitAfterPoll = None, waitAfterError = None\<rparr>]
   = Returned
       \<lparr>seenMessages = {js ''Bob: Quit '', js ''Alice:hello''}, consecutiveErrors = 0,
        dispatched = [(helloMsg, js ''roger'', True)]\<rparr>"
proof -
  let ?it = "\<lparr>poll = Inr [helloMsg, quitMsg, mentionMsg], replyEnv = (\<lambda>i. readyReply),
       waitAfterPoll = None, waitAfterError = None\<rparr>"
  let ?st1 = "\<lparr>seenMessages = {js ''Alice:hello''}, consecutiveErrors = 0,
        dispatched = [(helloMsg, js ''roger'', True)]\<rparr>"
  have a: "poll ?it = Inr ([helloMsg] @ quitMsg # [mentionMsg])" by simp
  have b: "processMessages lowerBasic defaultConfig (replyEnv ?it) 0 initialMonitorState [helloMsg]
             = (False, ?st1)"
    by (simp add: initialMonitorState_def helloMsg_def defaultConfig_def readyReply_def
        monitor_eval string_eval)
  have c: "messageKey quitMsg \<notin> seenMessages ?st1"
    by (simp add: quitMsg_def messageKey_def js_def)
  have d: "\<not> isBotOwnMessage defaultConfig quitMsg"
    by (simp add: quitMsg_def isBotOwnMessage_def defaultConfig_def js_def)
  have e: "trim (lowerBasic (msgText quitMsg)) = js ''quit''"
    by (simp add: quitMsg_def string_eval)
  from quit_short_circuit[OF a b c d e] show ?thesis
    by (simp add: markSeen_def messageKey_def quitMsg_def js_def)
qed

subsection \<open>Mention and default reply\<close>

text \<open>
  Two messages that get no \<open>dong\<close> or no reply at all. With another message text
  configured, a participant's message \<open>I'm in.\<close> is none of the bot's own (it does not come
  under the bot's name, and its text is neither a reply token nor the configured message text)
  and is not the quit command, yet the filter drops it and no reply is dispatched. And for a
  bot named in Greek capitals, a message whose text contains the name letter for letter is
  answered with \<open>roger\<close>: the sigma that ends the name is lowered to a final sigma, the same
  sigma inside the text is not.
\<close>

theorem mention_vs_default_counterexample:
  "\<not> isSelfMessage greetingConfig defaultGreeting
   \<and> trim (lowerBasic (msgText defaultGreeting)) \<noteq> js ''quit''
   \<and> processMessages lowerBasic greetingConfig (\<lambda>i. readyReply) 0 initialMonitorState
        [defaultGreeting]
       = (False,
          \<lparr>seenMessages = {js ''Alice:I'm in.''}, consecutiveErrors = 0, dispatched = []\<rparr>)
   \<and> sublist (botName odosConfig) (msgText odosMsg)
   \<and> \<not> isSelfMessage odosConfig odosMsg
   \<and> trim (lowerBasic (msgText odosMsg)) \<noteq> js ''quit''
   \<and> processMessages lowerBasic odosConfig (\<lambda>i. readyReply) 0 initialMonitorState [odosMsg]
       = (False,
          \<lparr>seenMessages = {js ''Alice:'' @ [0x39F, 0x394, 0x39F, 0x3A3, 0x391]},
           consecutiveErrors = 0,
           dispatched = [(odosMsg, js ''roger'', True)]\<rparr>)"
proof (intro conjI)
  show "\<not> isSelfMessage greetingConfig defaultGreeting"
    by (simp add: isSelfMessage_def greetingConfig_def defaultGreeting_def defaultConfig_def
        js_def)
  show "trim (lowerBasic (msgText defaultGreeting)) \<noteq> js ''quit''"
    by (simp add: defaultGreeting_def string_eval)
  show "processMessages lowerBasic greetingConfig (\<lambda>i. readyReply) 0 initialMonitorState
        [defaultGreeting]
       = (False,
          \<lparr>seenMessages = {js ''Alice:I'm in.''}, consecutiveErrors = 0, dispatched = []\<rparr>)"
    by (simp add: initialMonitorState_def defaultGreeting_def greetingConfig_def
        defaultConfig_def messageKey_def isBotOwnMessage_def markSeen_def js_def)
  show "sublist (botName odosConfig) (msgText odosMsg)"
    by (simp add: odosConfig_def odosMsg_def str_includes_sublist[symmetric])
  show "\<not> isSelfMessage odosConfig odosMsg"
    by (simp add: isSelfMessage_def odosConfig_def odosMsg_def defaultConfig_def js_def)
  show "trim (lowerBasic (msgText odosMsg)) \<noteq> js ''quit''"
    by (simp add: odosMsg_def string_eval)
  show "processMessages lowerBasic odosConfig (\<lambda>i. readyReply) 0 initialMonitorState [odosMsg]
       = (False,
          \<lparr>seenMessages = {js ''Alice:'' @ [0x39F, 0x394, 0x39F, 0x3A3, 0x391]},
           consecutiveErrors = 0,
           dispatched = [(odosMsg, js ''roger'', True)]\<rparr>)"
    by (simp add: initialMonitorState_def odosMsg_def odosConfig_def defaultConfig_def
        readyReply_def monitor_eval string_eval)
qed

text \<open>
  Claim C6 (mention and default reply), as amended. Take a message that is processed (its key
  not yet seen), that is none of the bot's own (not under the bot's name, its text neither a
  reply token nor the configured message text), whose text is not the fixed text
  \<open>I'm in.\<close>, and that is not the quit command. It gets exactly one reply: \<open>dong\<close> when
  its text, lowered by \<open>toLowerCase\<close> and trimmed, contains the bot's name as lowered by
  \<open>toLowerCase\<close>, and \<open>roger\<close> otherwise.
\<close>

theorem mention_vs_default:
  assumes "messageKey msg \<notin> seenMessages st"
    and "\<not> isSelfMessage cfg msg"
    and "msgText msg \<noteq> js ''I'm in.''"
    and "trim (lower (msgText msg)) \<noteq> js ''quit''"
  shows "processMessages lower cfg renv i st [msg] =
           (False,
            st\<lparr>seenMessages := insert (messageKey msg) (seenMessages st),
               dispatched := dispatched st @
                 [(msg,
                   if sublist (lower (botName cfg)) (trim (lower (msgText msg)))
                   then js ''dong'' else js ''roger'',
                   sendQuickReply (renv i)
                     (if sublist (lower (botName cfg)) (trim (lower (msgText msg)))
                      then js ''dong'' else js ''roger''))]\<rparr>)"
proof -
  from assms(2,3) have "\<not> isBotOwnMessage cfg msg"
    by (simp add: isSelfMessage_def isBotOwnMessage_def)
  with assms(1,4) show ?thesis
    by (simp add: textLower_def dispatchReply_def markSeen_def replyToken_def mentionsBot_def
        str_includes_sublist)
qed

theorem mention_vs_default_witness:
  "processMessages lowerBasic defaultConfig (\<lambda>i. readyReply) 0 initialMonitorState [mentionMsg]
     = (False,
        \<lparr>seenMessages = {js ''Alice: ping FRIDAY bot ''}, consecutiveErrors = 0,
         dispatched = [(mentionMsg, js ''dong'', True)]\<rparr>)
   \<and> processMessages lowerBasic defaultConfig (\<lambda>i. lostReply) 0 initialMonitorState [helloMsg]
     = (False,
        \<lparr>seenMessages = {js ''Alice:hello''}, consecutiveErrors = 0,
         dispatched = [(helloMsg, js ''roger'', False)]\<rparr>)"
proof -
  have fresh: "messageKey mentionMsg \<notin> seenMessages initialMonitorState"
    "messageKey helloMsg \<notin> seenMessages initialMonitorState"
    by (simp_all add: initialMonitorState_def)
  have other: "\<not> isSelfMessage defaultConfig mentionMsg" "\<not> isSelfMessage defaultConfig helloMsg"
    by (simp_all add: isSelfMessage_def defaultConfig_def mentionMsg_def helloMsg_def js_def)
  have fixed: "msgText mentionMsg \<noteq> js ''I'm in.''" "msgText helloMsg \<noteq> js ''I'm in.''"
    by (simp_all add: mentionMsg_def helloMsg_def js_def)
  have noquit: "trim (lowerBasic (msgText mentionMsg)) \<noteq> js ''quit''"
    "trim (lowerBasic (msgText helloMsg)) \<noteq> js ''quit''"
    by (simp_all add: mentionMsg_def helloMsg_def string_eval)
  have named:
    "sublist (lowerBasic (botName defaultConfig)) (trim (lowerBasic (msgText mentionMsg)))"
    "\<not> sublist (lowerBasic (botName defaultConfig)) (trim (lowerBasic (msgText helloMsg)))"
    by (simp_all add: str_includes_sublist[symmetric] mentionMsg_def helloMsg_def
        defaultConfig_def string_eval)
  from mention_vs_default
      [where lower = lowerBasic and cfg = defaultConfig and msg = mentionMsg
         and st = initialMonitorState and renv = "\<lambda>i. readyReply" and i = 0,
       OF fresh(1) other(1) fixed(1) noquit(1)]
    mention_vs_default
      [where lower = lowerBasic and cfg = defaultConfig and msg = helloMsg
         and st = initialMonitorState and renv = "\<lambda>i. lostReply" and i = 0,
       OF fresh(2) other(2) fixed(2) noquit(2)]
    named
  show ?thesis
    by (simp add: initialMonitorState_def messageKey_def mentionMsg_def helloMsg_def
        sendQuickReply_def readyReply_def lostReply_def js_def)
qed

subsection \<open>The error ceiling\<close>

lemma onPollError_Running:
  "onPollError st it = Running st' \<longleftrightarrow>
     consecutiveErrors st + 1 < maxConsecutiveErrors \<and> waitAfterError it = None
     \<and> st' = st\<lparr>consecutiveErrors := consecutiveErrors st + 1\<rparr>"
  by (auto simp: onPollError_def split: option.splits)

lemma onPollError_Failed:
  "onPollError st it = Threw MonitoringFailed st' \<longleftrightarrow>
     maxConsecutiveErrors \<le> consecutiveErrors st + 1
     \<and> st' = st\<lparr>consecutiveErrors := consecutiveErrors st + 1\<rparr>"
  by (auto simp: onPollError_def split: option.splits)

text \<open>The three ways in which a pass leaves the loop polling: the poll fails and the handler's
  wait completes; the poll and the wait after it complete; the poll completes, the wait after
  it is rejected and the handler's wait completes.\<close>

lemma monitorIteration_Running:
  "monitorIteration lower cfg st it = Running st' \<Longrightarrow>
     (isl (poll it) \<and> waitAfterError it = None
        \<and> consecutiveErrors st + 1 < maxConsecutiveErrors
        \<and> consecutiveErrors st' = consecutiveErrors st + 1)
     \<or> (\<not> isl (poll it) \<and> waitAfterPoll it = None \<and> consecutiveErrors st' = 0)
     \<or> (\<not> isl (poll it) \<and> waitAfterPoll it \<noteq> None \<and> waitAfterError it = None
          \<and> consecutiveErrors st' = 1)"
  by (auto simp: monitorIteration_def onPollError_Running
      split: sum.splits option.splits if_splits)

lemma monitorIteration_Failed:
  "monitorIteration lower cfg st it = Threw MonitoringFailed st' \<Longrightarrow>
     isl (poll it) \<and> maxConsecutiveErrors \<le> consecutiveErrors st + 1"
  by (auto simp: monitorIteration_def onPollError_Failed maxConsecutiveErrors_def
      split: sum.splits option.splits if_splits)

lemma monitorIteration_poll_failed:
  "isl (poll it) \<Longrightarrow> monitorIteration lower cfg st it = onPollError st it"
  by (cases "poll it") (simp_all add: monitorIteration_def)

lemma monitorLoop_Running_bound:
  "monitorLoop lower cfg st its = Running st' \<Longrightarrow> consecutiveErrors st < maxConsecutiveErrors \<Longrightarrow>
     consecutiveErrors st' < maxConsecutiveErrors"
proof (induction its arbitrary: st)
  case Nil
  then show ?case by simp
next
  case (Cons it its)
  from Cons.prems(1) obtain s where s: "monitorIteration lower cfg st it = Running s"
    and rest: "monitorLoop lower cfg s its = Running st'"
    by (auto split: run.splits)
  from monitorIteration_Running[OF s] have "consecutiveErrors s < maxConsecutiveErrors"
    by (auto simp: maxConsecutiveErrors_def)
  with Cons.IH[OF rest] show ?case .
qed

text \<open>A counter above zero counts the passes since the one that last set it to one: that pass
  ended in the handler, and each pass since had its poll fail.\<close>

lemma counter_is_streak:
  "monitorLoop lower cfg initialMonitorState its = Running st \<Longrightarrow> consecutiveErrors st = Suc n \<Longrightarrow>
     \<exists>before first streak. its = before @ first # streak \<and> length streak = n
       \<and> (isl (poll first) \<or> waitAfterPoll first \<noteq> None)
       \<and> (\<forall>it\<in>set streak. isl (poll it) \<and> waitAfterError it = None)
       \<and> (\<exists>s. monitorLoop lower cfg initialMonitorState (before @ [first]) = Running s)"
proof (induction its arbitrary: st n rule: rev_induct)
  case Nil
  then show ?case by (auto simp: initialMonitorState_def)
next
  case (snoc x xs)
  from snoc.prems(1) obtain s1 where
    s1: "monitorLoop lower cfg initialMonitorState xs = Running s1"
    and step: "monitorIteration lower cfg s1 x = Running st"
    by (auto simp: monitorLoop_append split: run.splits)
  have fresh: "xs @ [x] = xs @ x # [] \<and> length ([] :: iteration list) = 0
      \<and> (\<forall>it\<in>set ([] :: iteration list). isl (poll it) \<and> waitAfterError it = None)
      \<and> (\<exists>s. monitorLoop lower cfg initialMonitorState (xs @ [x]) = Running s)"
    using snoc.prems(1) by simp
  from monitorIteration_Running[OF step] consider
    (failed) "isl (poll x)" "waitAfterError x = None"
      "consecutiveErrors st = consecutiveErrors s1 + 1"
    | (reset) "consecutiveErrors st = 0"
    | (handled) "waitAfterPoll x \<noteq> None" "consecutiveErrors st = 1"
    by auto
  then show ?case
  proof cases
    case failed
    show ?thesis
    proof (cases n)
      case 0
      with fresh failed(1) show ?thesis by blast
    next
      case (Suc m)
      with failed(3) snoc.prems(2) have "consecutiveErrors s1 = Suc m" by simp
      from snoc.IH[OF s1 this] obtain before first streak where
        "xs = before @ first # streak" "length streak = m"
        "isl (poll first) \<or> waitAfterPoll first \<noteq> None"
        "\<forall>it\<in>set streak. isl (poll it) \<and> waitAfterError it = None"
        "\<exists>s. monitorLoop lower cfg initialMonitorState (before @ [first]) = Running s"
        by blast
      with failed(1,2) Suc have "xs @ [x] = before @ first # (streak @ [x])
          \<and> length (streak @ [x]) = n
          \<and> (isl (poll first) \<or> waitAfterPoll first \<noteq> None)
          \<and> (\<forall>it\<in>set (streak @ [x]). isl (poll it) \<and> waitAfterError it = None)
          \<and> (\<exists>s. monitorLoop lower cfg initialMonitorState (before @ [first]) = Running s)"
        by simp
      then show ?thesis by blast
    qed
  next
    case reset
    with snoc.prems(2) show ?thesis by simp
  next
    case handled
    with snoc.prems(2) have "n = 0" by simp
    with fresh handled(1) show ?thesis by blast
  qed
qed

lemma monitorLoop_Threw:
  "monitorLoop lower cfg st its = Threw e st' \<Longrightarrow>
     \<exists>pre it rest s. its = pre @ it # rest \<and> monitorLoop lower cfg st pre = Running s
       \<and> monitorIteration lower cfg s it = Threw e st'"
proof (induction its arbitrary: st)
  case Nil
  then show ?case by simp
next
  case (Cons x xs)
  show ?case
  proof (cases "monitorIteration lower cfg st x")
    case (Running s')
    with Cons.prems have "monitorLoop lower cfg s' xs = Threw e st'" by simp
    from Cons.IH[OF this] obtain pre it rest s where
      "xs = pre @ it # rest" "monitorLoop lower cfg s' pre = Running s"
      "monitorIteration lower cfg s it = Threw e st'"
      by blast
    with Running have "x # xs = (x # pre) @ it # rest
        \<and> monitorLoop lower cfg st (x # pre) = Running s
        \<and> monitorIteration lower cfg s it = Threw e st'"
      by simp
    then show ?thesis by blast
  next
    case (Returned s')
    with Cons.prems show ?thesis by simp
  next
    case (Threw e' s')
    with Cons.prems have "x # xs = [] @ x # xs \<and> monitorLoop lower cfg st [] = Running st
        \<and> monitorIteration lower cfg st x = Threw e st'"
      by simp
    then show ?thesis by blast
  qed
qed

lemma failed_polls_reach_ceiling:
  "consecutiveErrors s < maxConsecutiveErrors \<Longrightarrow> \<forall>it\<in>set xs. isl (poll it) \<Longrightarrow>
   \<forall>it\<in>set (butlast xs). waitAfterError it = None \<Longrightarrow>
   maxConsecutiveErrors \<le> length xs + consecutiveErrors s \<Longrightarrow>
     \<exists>st'. monitorLoop lower cfg s (xs @ rest) = Threw MonitoringFailed st'"
proof (induction xs arbitrary: s)
  case Nil
  then show ?case by simp
next
  case (Cons x xs)
  have step: "monitorIteration lower cfg s x = onPollError s x"
    using Cons.prems(2) by (simp add: monitorIteration_poll_failed)
  show ?case
  proof (cases "maxConsecutiveErrors \<le> consecutiveErrors s + 1")
    case True
    with step show ?thesis by (simp add: onPollError_def)
  next
    case False
    with Cons.prems(4) have "xs \<noteq> []" by auto
    with Cons.prems(3) have wait: "waitAfterError x = None"
      and waits: "\<forall>it\<in>set (butlast xs). waitAfterError it = None"
      by simp_all
    let ?s' = "s\<lparr>consecutiveErrors := consecutiveErrors s + 1\<rparr>"
    from False wait step have run: "monitorIteration lower cfg s x = Running ?s'"
      by (simp add: onPollError_def)
    have "\<exists>st'. monitorLoop lower cfg ?s' (xs @ rest) = Threw MonitoringFailed st'"
    proof (rule Cons.IH)
      show "consecutiveErrors ?s' < maxConsecutiveErrors" using False by simp
      show "\<forall>it\<in>set xs. isl (poll it)" using Cons.prems(2) by simp
      show "\<forall>it\<in>set (butlast xs). waitAfterError it = None" by (rule waits)
      show "maxConsecutiveErrors \<le> length xs + consecutiveErrors ?s'"
        using Cons.prems(4) by simp
    qed
    with run show ?thesis by simp
  qed
qed

text \<open>
  A pass whose poll completes and finds nothing, and whose wait of 500 ms is rejected, ends in
  the error handler, which leaves the counter at one. After it nine failed polls are enough
  for the monitoring-failed error: the loop ends with that error though only nine polls failed
  and the poll of the pass before them completed. The other way round, nine failed polls
  followed by such a pass make ten passes in a row that end in the handler, and the loop is
  still polling, with the counter at one.
\<close>

theorem error_ceiling_counterexample:
  "poll brokenWaitPoll = Inr []
   \<and> length nineLostPolls = 9
   \<and> monitorChatMessages lowerBasic defaultConfig [brokenWaitPoll]
       = Running \<lparr>seenMessages = {}, consecutiveErrors = 1, dispatched = []\<rparr>
   \<and> monitorChatMessages lowerBasic defaultConfig (brokenWaitPoll # nineLostPolls)
       = Threw MonitoringFailed \<lparr>seenMessages = {}, consecutiveErrors = 10, dispatched = []\<rparr>
   \<and> monitorChatMessages lowerBasic defaultConfig (nineLostPolls @ [brokenWaitPoll])
       = Running \<lparr>seenMessages = {}, consecutiveErrors = 1, dispatched = []\<rparr>"
  by (simp add: monitorChatMessages_def monitorIteration_def onPollError_def
      maxConsecutiveErrors_def initialMonitorState_def brokenWaitPoll_def quietPoll_def
      nineLostPolls_def lostPoll_def)

text \<open>
  Claim C8 (error ceiling), as amended. The loop ends with the monitoring-failed error exactly
  when the passes hold ten in a row of this kind: a first pass that ends in the error handler
  (its poll fails, or its poll completes and the wait of 500 ms after it is rejected) and
  after which the loop is still polling, then nine passes whose poll fails, the handler's wait
  of 1000 ms completing after each of the first eight of them. The ceiling is ten. A pass whose
  poll completes and which leaves the loop polling leaves the counter at zero when its wait of
  500 ms completes, and at one when that wait is rejected. Processing a batch leaves the
  counter as it was whatever the replies meet, and the counter after a pass does not depend on
  what the replies meet.
\<close>

theorem error_ceiling:
  "((\<exists>st'. monitorChatMessages lower cfg its = Threw MonitoringFailed st') \<longleftrightarrow>
      (\<exists>before first nine rest.
          its = before @ first # nine @ rest \<and> Suc (length nine) = maxConsecutiveErrors
          \<and> (\<exists>s. monitorChatMessages lower cfg (before @ [first]) = Running s)
          \<and> (isl (poll first) \<or> waitAfterPoll first \<noteq> None)
          \<and> (\<forall>it\<in>set nine. isl (poll it))
          \<and> (\<forall>it\<in>set (butlast nine). waitAfterError it = None)))
   \<and> maxConsecutiveErrors = 10
   \<and> (\<not> isl (poll it) \<and> monitorIteration lower cfg st it = Running st'
      \<longrightarrow> consecutiveErrors st' = (if waitAfterPoll it = None then 0 else 1))
   \<and> consecutiveErrors (snd (processMessages lower cfg renv i st messages)) = consecutiveErrors st
   \<and> consecutiveErrors (run_state (monitorIteration lower cfg st (it\<lparr>replyEnv := renv\<rparr>)))
       = consecutiveErrors (run_state (monitorIteration lower cfg st it))"
proof (intro conjI)
  show "(\<exists>st'. monitorChatMessages lower cfg its = Threw MonitoringFailed st') \<longleftrightarrow>
      (\<exists>before first nine rest.
          its = before @ first # nine @ rest \<and> Suc (length nine) = maxConsecutiveErrors
          \<and> (\<exists>s. monitorChatMessages lower cfg (before @ [first]) = Running s)
          \<and> (isl (poll first) \<or> waitAfterPoll first \<noteq> None)
          \<and> (\<forall>it\<in>set nine. isl (poll it))
          \<and> (\<forall>it\<in>set (butlast nine). waitAfterError it = None))"
  proof
    assume "\<exists>st'. monitorChatMessages lower cfg its = Threw MonitoringFailed st'"
    then obtain st' where
      "monitorLoop lower cfg initialMonitorState its = Threw MonitoringFailed st'"
      by (auto simp: monitorChatMessages_def)
    from monitorLoop_Threw[OF this] obtain pre x rest s where
      its: "its = pre @ x # rest"
      and pre: "monitorLoop lower cfg initialMonitorState pre = Running s"
      and x: "monitorIteration lower cfg s x = Threw MonitoringFailed st'"
      by blast
    have "consecutiveErrors s < maxConsecutiveErrors"
      using monitorLoop_Running_bound[OF pre]
      by (simp add: initialMonitorState_def maxConsecutiveErrors_def)
    with monitorIteration_Failed[OF x] have failed: "isl (poll x)"
      and nine: "consecutiveErrors s = Suc 8"
      by (auto simp: maxConsecutiveErrors_def)
    from counter_is_streak[OF pre nine] obtain before first streak where
      split: "pre = before @ first # streak" and len: "length streak = 8"
      and first: "isl (poll first) \<or> waitAfterPoll first \<noteq> None"
      and streak: "\<forall>it\<in>set streak. isl (poll it) \<and> waitAfterError it = None"
      and before: "\<exists>s. monitorLoop lower cfg initialMonitorState (before @ [first]) = Running s"
      by blast
    have "its = before @ first # (streak @ [x]) @ rest
        \<and> Suc (length (streak @ [x])) = maxConsecutiveErrors
        \<and> (\<exists>s. monitorChatMessages lower cfg (before @ [first]) = Running s)
        \<and> (isl (poll first) \<or> waitAfterPoll first \<noteq> None)
        \<and> (\<forall>it\<in>set (streak @ [x]). isl (poll it))
        \<and> (\<forall>it\<in>set (butlast (streak @ [x])). waitAfterError it = None)"
      using its split len first streak before failed
      by (simp add: monitorChatMessages_def maxConsecutiveErrors_def)
    then show "\<exists>before first nine rest.
          its = before @ first # nine @ rest \<and> Suc (length nine) = maxConsecutiveErrors
          \<and> (\<exists>s. monitorChatMessages lower cfg (before @ [first]) = Running s)
          \<and> (isl (poll first) \<or> waitAfterPoll first \<noteq> None)
          \<and> (\<forall>it\<in>set nine. isl (poll it))
          \<and> (\<forall>it\<in>set (butlast nine). waitAfterError it = None)"
      by blast
  next
    assume "\<exists>before first nine rest.
          its = before @ first # nine @ rest \<and> Suc (length nine) = maxConsecutiveErrors
          \<and> (\<exists>s. monitorChatMessages lower cfg (before @ [first]) = Running s)
          \<and> (isl (poll first) \<or> waitAfterPoll first \<noteq> None)
          \<and> (\<forall>it\<in>set nine. isl (poll it))
          \<and> (\<forall>it\<in>set (butlast nine). waitAfterError it = None)"
    then obtain before first nine rest s where its: "its = before @ first # nine @ rest"
      and len: "Suc (length nine) = maxConsecutiveErrors"
      and before: "monitorLoop lower cfg initialMonitorState (before @ [first]) = Running s"
      and first: "isl (poll first) \<or> waitAfterPoll first \<noteq> None"
      and failed: "\<forall>it\<in>set nine. isl (poll it)"
      and waits: "\<forall>it\<in>set (butlast nine). waitAfterError it = None"
      by (auto simp: monitorChatMessages_def)
    have bound: "consecutiveErrors s < maxConsecutiveErrors"
      using monitorLoop_Running_bound[OF before]
      by (simp add: initialMonitorState_def maxConsecutiveErrors_def)
    from before obtain s0 where "monitorIteration lower cfg s0 first = Running s"
      by (auto simp: monitorLoop_append split: run.splits)
    from monitorIteration_Running[OF this] first have "1 \<le> consecutiveErrors s"
      by auto
    with len have "maxConsecutiveErrors \<le> length nine + consecutiveErrors s"
      by simp
    with bound failed waits
    have "\<exists>st'. monitorLoop lower cfg s (nine @ rest) = Threw MonitoringFailed st'"
      by (intro failed_polls_reach_ceiling)
    moreover have "its = (before @ [first]) @ nine @ rest"
      using its by simp
    ultimately show "\<exists>st'. monitorChatMessages lower cfg its = Threw MonitoringFailed st'"
      using before by (simp only: monitorChatMessages_def monitorLoop_append run.case)
  qed
next
  show "maxConsecutiveErrors = 10" by (simp add: maxConsecutiveErrors_def)
next
  show "\<not> isl (poll it) \<and> monitorIteration lower cfg st it = Running st'
      \<longrightarrow> consecutiveErrors st' = (if waitAfterPoll it = None then 0 else 1)"
    using monitorIteration_Running[of lower cfg st it st'] by auto
next
  show "consecutiveErrors (snd (processMessages lower cfg renv i st messages)) = consecutiveErrors st"
    by (rule consecutiveErrors_processMessages)
next
  show "consecutiveErrors (run_state (monitorIteration lower cfg st (it\<lparr>replyEnv := renv\<rparr>)))
       = consecutiveErrors (run_state (monitorIteration lower cfg st it))"
  proof (cases "poll it")
    case (Inl r)
    then show ?thesis by (simp add: monitorIteration_def onPollError_def)
  next
    case (Inr messages)
    have "fst (processMessages lower cfg renv 0 st messages)
            = fst (processMessages lower cfg (replyEnv it) 0 st messages)"
      using processMessages_replies_irrelevant[of st st lower cfg renv 0 messages "replyEnv it"]
      by simp
    with Inr show ?thesis
      by (simp add: monitorIteration_def onPollError_def consecutiveErrors_processMessages
          maxConsecutiveErrors_def split: option.splits)
  qed
qed

theorem error_ceiling_witness:
  "(\<exists>st'. monitorChatMessages lowerBasic defaultConfig ([quietPoll] @ tenLostPolls @ [quietPoll])
            = Threw MonitoringFailed st')
   \<and> consecutiveErrors (run_state (monitorIteration lowerBasic defaultConfig
         \<lparr>seenMessages = {}, consecutiveErrors = 9, dispatched = []\<rparr> quietPoll)) = 0"
proof -
  have start: "\<exists>s. monitorChatMessages lowerBasic defaultConfig ([quietPoll] @ [lostPoll]) = Running s"
    by (simp add: monitorChatMessages_def monitorIteration_def onPollError_def
        maxConsecutiveErrors_def quietPoll_def lostPoll_def)
  have nine: "Suc (length nineLostPolls) = maxConsecutiveErrors"
    by (simp add: nineLostPolls_def maxConsecutiveErrors_def)
  have first: "isl (poll lostPoll) \<or> waitAfterPoll lostPoll \<noteq> None"
    by (simp add: lostPoll_def)
  have failed: "\<forall>it\<in>set nineLostPolls. isl (poll it)"
    by (simp add: nineLostPolls_def lostPoll_def)
  have waits: "\<forall>it\<in>set (butlast nineLostPolls). waitAfterError it = None"
    by (simp add: nineLostPolls_def lostPoll_def)
  have shape: "[quietPoll] @ tenLostPolls @ [quietPoll]
                 = [quietPoll] @ lostPoll # nineLostPolls @ [quietPoll]"
    by (simp add: tenLostPolls_def)
  have "\<exists>before first nine rest.
          [quietPoll] @ tenLostPolls @ [quietPoll] = before @ first # nine @ rest
          \<and> Suc (length nine) = maxConsecutiveErrors
          \<and> (\<exists>s. monitorChatMessages lowerBasic defaultConfig (before @ [first]) = Running s)
          \<and> (isl (poll first) \<or> waitAfterPoll first \<noteq> None)
          \<and> (\<forall>it\<in>set nine. isl (poll it))
          \<and> (\<forall>it\<in>set (butlast nine). waitAfterError it = None)"
    using start nine first failed waits shape by blast
  with error_ceiling
    [where lower = lowerBasic and cfg = defaultConfig
       and its = "[quietPoll] @ tenLostPolls @ [quietPoll]" and it = quietPoll
       and st = "\<lparr>seenMessages = {}, consecutiveErrors = 9, dispatched = []\<rparr>"
       and st' = "\<lparr>seenMessages = {}, consecutiveErrors = 0, dispatched = []\<rparr>"]
  have a: "\<exists>st'. monitorChatMessages lowerBasic defaultConfig
                   ([quietPoll] @ tenLostPolls @ [quietPoll]) = Threw MonitoringFailed st'"
    by blast
  have "monitorIteration lowerBasic defaultConfig
         \<lparr>seenMessages = {}, consecutiveErrors = 9, dispatched = []\<rparr> quietPoll
         = Running \<lparr>seenMessages = {}, consecutiveErrors = 0, dispatched = []\<rparr>"
    by (simp add: monitorIteration_def quietPoll_def)
  with a show ?thesis by simp
qed

section \<open>Leaving after monitoring\<close>

lemma tenLostPolls_run:
  "monitorChatMessages lower defaultConfig tenLostPolls =
     Threw MonitoringFailed \<lparr>seenMessages = {}, consecutiveErrors = 10, dispatched = []\<rparr>"
  by (simp add: monitorChatMessages_def tenLostPolls_def nineLostPolls_def lostPoll_def
      monitorIteration_def onPollError_def maxConsecutiveErrors_def initialMonitorState_def)

lemma quietJoin_run: "fst (submitJoin quietJoin) = Inr ()"
  by (simp add: submitJoin_def submitJoinOn_def quietJoin_def quietModals_def
      dismissBlockingModals_def joinCandidates_def visibilityChecks_def probeVisible_def)

lemma admittedAtOnce_run: "fst (waitForAdmission cfg admittedAtOnce) = Inr ()"
  by (simp add: waitForAdmission_def inMeetingButtons_count visibleIndicatorCount_def
      admittedAtOnce_def)

lemma joinAndChatBody_monitor:
  assumes "gotoResult env = None" "resolveSurfaceResult env = None"
    "fillDisplayNameResult env = None" "fst (submitJoin (joinSurface env)) = Inr ()"
    "fst (waitForAdmission cfg (admissionSurface env)) = Inr ()"
    "sendChatMessageResult env = None"
  shows "joinAndChatBody lower cfg env =
     andThen
       (Completed,
        [Goto (webClientUrl cfg), AcceptCookies, ResolveSurface, FillDisplayName, SubmitJoin,
         WaitForAdmission, SendChatMessage])
       (andThen (monitorStage lower cfg env) (stageResult LeaveMeeting (leaveMeetingResult env)))"
  using assms
  by (simp add: joinAndChatBody_def andThen_def stageResult_def raised_def split: outcome.splits)

text \<open>
  Claim C1 (leave after a monitoring error), as amended. With monitoring enabled and the
  stages before it gone through: when the loop ends by raising an error, \<open>joinAndChat\<close>
  raises that error without attempting the leave sequence, after a screenshot if and only if
  the page is still open; when the loop returns on the quit command, the leave sequence is
  attempted.
\<close>

theorem leave_only_after_clean_monitoring:
  assumes "monitorMessages cfg"
    and "gotoResult env = None" "resolveSurfaceResult env = None"
    "fillDisplayNameResult env = None" "fst (submitJoin (joinSurface env)) = Inr ()"
    "fst (waitForAdmission cfg (admissionSurface env)) = Inr ()"
    "sendChatMessageResult env = None"
  shows "(monitorChatMessages lower cfg (monitorScript env) = Threw e st \<longrightarrow>
            fst (joinAndChat lower cfg env) = Raised e
            \<and> LeaveMeeting \<notin> set (snd (joinAndChat lower cfg env))
            \<and> (FailureScreenshot \<in> set (snd (joinAndChat lower cfg env))
                 \<longleftrightarrow> \<not> pageIsClosed env))
       \<and> (monitorChatMessages lower cfg (monitorScript env) = Returned st \<longrightarrow>
            LeaveMeeting \<in> set (snd (joinAndChat lower cfg env)))"
  using assms(1)
  by (auto simp: joinAndChat_def joinAndChatBody_monitor[OF assms(2-7)] andThen_def
      stageResult_def monitorStage_def split: option.splits)

theorem leave_only_after_clean_monitoring_witness:
  "fst (joinAndChat lowerBasic defaultConfig
          (smoothSession\<lparr>monitorScript := tenLostPolls, pageIsClosed := True\<rparr>))
     = Raised MonitoringFailed
   \<and> LeaveMeeting \<notin> set (snd (joinAndChat lowerBasic defaultConfig
         (smoothSession\<lparr>monitorScript := tenLostPolls, pageIsClosed := True\<rparr>)))
   \<and> FailureScreenshot \<notin> set (snd (joinAndChat lowerBasic defaultConfig
         (smoothSession\<lparr>monitorScript := tenLostPolls, pageIsClosed := True\<rparr>)))"
proof -
  let ?env = "smoothSession\<lparr>monitorScript := tenLostPolls, pageIsClosed := True\<rparr>"
  have on: "monitorMessages defaultConfig" by (simp add: defaultConfig_def)
  have stages: "gotoResult ?env = None" "resolveSurfaceResult ?env = None"
    "fillDisplayNameResult ?env = None" "fst (submitJoin (joinSurface ?env)) = Inr ()"
    "fst (waitForAdmission defaultConfig (admissionSurface ?env)) = Inr ()"
    "sendChatMessageResult ?env = None"
    by (simp_all add: smoothSession_def quietJoin_run admittedAtOnce_run)
  have run: "monitorChatMessages lowerBasic defaultConfig (monitorScript ?env) =
      Threw MonitoringFailed \<lparr>seenMessages = {}, consecutiveErrors = 10, dispatched = []\<rparr>"
    by (simp add: tenLostPolls_run)
  have closed: "pageIsClosed ?env" by simp
  from leave_only_after_clean_monitoring
      [where lower = lowerBasic and e = MonitoringFailed
         and st = "\<lparr>seenMessages = {}, consecutiveErrors = 10, dispatched = []\<rparr>",
       OF on stages]
    run closed
  show ?thesis by blast
qed

text \<open>Ten failed polls in a row: the error reaches the caller and the meeting is never
  left.\<close>

theorem leave_after_monitor_error_counterexample:
  "joinAndChat lowerBasic defaultConfig (smoothSession\<lparr>monitorScript := tenLostPolls\<rparr>) =
     (Raised MonitoringFailed,
      [Goto (js ''https://x.zoom.us/wc/join/123''), AcceptCookies, ResolveSurface,
       FillDisplayName, SubmitJoin, WaitForAdmission, SendChatMessage, MonitorChatMessages,
       FailureScreenshot])
   \<and> LeaveMeeting \<notin> set (snd (joinAndChat lowerBasic defaultConfig
                                   (smoothSession\<lparr>monitorScript := tenLostPolls\<rparr>)))"
  by (simp add: joinAndChat_def joinAndChatBody_def andThen_def stageResult_def monitorStage_def
      tenLostPolls_run smoothSession_def quietJoin_run admittedAtOnce_run raised_def
      defaultConfig_def[THEN arg_cong, of monitorMessages]
      defaultConfig_def[THEN arg_cong, of webClientUrl])

section \<open>The web-client address\<close>

















end
